theory Spec2Isabelle
  imports Main "HOL-Library.AList"
begin

section \<open>The match state of src/app/page.tsx\<close>

text \<open>
  The three interfaces of the page (lines 6 to 24). A TypeScript \<open>number\<close> is
  modelled as an unbounded \<open>int\<close>: every number the page computes is an integer
  (counters, scores, positions in the history, \<open>Date.now()\<close>), far below
  \<open>2^53\<close>, where the floating point arithmetic of JavaScript is exact. A string
  is a \<open>char list\<close>.
\<close>

datatype stat = Winners | Unforced_errors

record PlayerStats =
  name :: string
  winners :: int
  unforced_errors :: int
  score :: int

record StatEntry =
  point :: int
  playerIndex :: int
  stat :: stat
  timestamp :: int

record MatchState =
  players :: "PlayerStats list"
  isGameStarted :: bool
  statHistory :: "StatEntry list"

text \<open>The value \<open>useState\<close> starts with (line 27), which is also the one
  \<open>resetMatch\<close> stores (line 115).\<close>

definition initialState :: MatchState where
  "initialState = \<lparr>players = [], isGameStarted = False, statHistory = []\<rparr>"

subsection \<open>startMatch (lines 72 to 85)\<close>

text \<open>
  \<open>String.prototype.trim\<close> drops white space at both ends. A \<open>char\<close> is
  a byte here, so the white space modelled is that of ASCII: tab, line feed, vertical
  tab, form feed, carriage return and space.
\<close>

definition whitespace :: "char \<Rightarrow> bool" where
  "whitespace c = (c \<in> set [CHR 0x09, CHR 0x0A, CHR 0x0B, CHR 0x0C, CHR 0x0D, CHR 0x20])"

definition trim :: "string \<Rightarrow> string" where
  "trim s = rev (dropWhile whitespace (rev (dropWhile whitespace s)))"

text \<open>\<open>playerNames\<close> is the array of the four input fields (line 33). When one
  of them is blank the handler does nothing: the state stays the one it was.\<close>

definition startMatch :: "string list \<Rightarrow> MatchState \<Rightarrow> MatchState" where
  "startMatch playerNames prev =
     (if list_all (\<lambda>name. trim name \<noteq> []) playerNames
      then \<lparr>players = map (\<lambda>name. \<lparr>name = trim name, winners = 0,
                                       unforced_errors = 0, score = 0\<rparr>) playerNames,
            isGameStarted = True,
            statHistory = []\<rparr>
      else prev)"

subsection \<open>incrementStat (lines 87 to 111)\<close>

definition statValue :: "stat \<Rightarrow> int" where
  "statValue st = (if st = Winners then 2 else - 1)"

text \<open>The object \<open>{ ...player, [stat]: player[stat] + 1, score: player.score + statValue }\<close>
  of lines 102 to 106.\<close>

definition bumped :: "stat \<Rightarrow> PlayerStats \<Rightarrow> PlayerStats" where
  "bumped st player =
     (case st of
        Winners \<Rightarrow>
          player\<lparr>winners := winners player + 1, score := score player + statValue st\<rparr>
      | Unforced_errors \<Rightarrow>
          player\<lparr>unforced_errors := unforced_errors player + 1,
                 score := score player + statValue st\<rparr>)"

text \<open>
  The updater given to \<open>setMatchState\<close>: from the previous state \<open>prev\<close> to the
  next one. \<open>now\<close> is what \<open>Date.now()\<close> returns. \<open>Array.prototype.map\<close>
  hands the callback each element with its index; an index that equals
  \<open>playerIndex\<close> nowhere leaves every element as it is. There is no check of
  \<open>isGameStarted\<close> or of the range of \<open>playerIndex\<close>, and nothing here
  can throw. (The first argument is written \<open>pIndex\<close>, since
  \<open>playerIndex\<close> names the field of \<open>StatEntry\<close>.)
\<close>

definition incrementStat :: "int \<Rightarrow> stat \<Rightarrow> int \<Rightarrow> MatchState \<Rightarrow> MatchState" where
  "incrementStat pIndex st now prev =
     (let newStatHistory = statHistory prev @
            [\<lparr>point = int (length (statHistory prev)) + 1,
              playerIndex = pIndex,
              stat = st,
              timestamp = now\<rparr>]
      in prev\<lparr>statHistory := newStatHistory,
              players := map (\<lambda>(index, player).
                                 if int index = pIndex then bumped st player else player)
                             (enumerate 0 (players prev))\<rparr>)"

subsection \<open>handleKeyPress (lines 46 to 70) and the buttons (lines 310 to 350)\<close>

text \<open>
  The two callers of \<open>incrementStat\<close>. The key handler returns at once while the
  match has not started. \<open>key in keyMap\<close> holds for the eight keys of the table and
  also for every name that \<open>keyMap\<close> inherits from \<open>Object.prototype\<close>
  (\<open>toString\<close>, \<open>constructor\<close>, \<open>valueOf\<close> and so on; the names are the
  platform's and are the parameter \<open>inherited\<close>). Under an inherited name
  \<open>keyMap[key]\<close> is a value with neither \<open>playerIndex\<close> nor \<open>stat\<close>, so
  the destructuring of line 63 gives \<open>undefined\<close> twice and the handler calls
  \<open>incrementStat(undefined, undefined)\<close>. \<open>handleKeyPress\<close> gives the call of
  \<open>incrementStat\<close> that the handler makes, if it makes one; \<open>None\<close> in the
  place of an argument is \<open>undefined\<close>. What the call with \<open>undefined\<close> does
  lies outside the types of \<open>incrementStat\<close>: in the code it appends an entry
  without index and kind, and changes no player, since no index equals
  \<open>undefined\<close>.
\<close>

definition keyMap :: "(string \<times> int \<times> stat) list" where
  "keyMap = [(''1'', 0, Winners), (''2'', 0, Unforced_errors),
             (''3'', 1, Winners), (''4'', 1, Unforced_errors),
             (''5'', 2, Winners), (''6'', 2, Unforced_errors),
             (''7'', 3, Winners), (''8'', 3, Unforced_errors)]"

definition handleKeyPress ::
  "string list \<Rightarrow> string \<Rightarrow> MatchState \<Rightarrow> (int option \<times> stat option) option" where
  "handleKeyPress inherited key s =
     (if \<not> isGameStarted s then None
      else (case map_of keyMap key of
              Some (pIndex, st) \<Rightarrow> Some (Some pIndex, Some st)
            | None \<Rightarrow> if key \<in> set inherited then Some (None, None) else None))"

text \<open>
  The page renders the name form while the match has not started (line 214) and the
  score board otherwise. The score board has two buttons for each player of
  \<open>players.slice(0, 2)\<close>, which call \<open>incrementStat(index, _)\<close>, and two for
  each player of \<open>players.slice(2, 4)\<close>, which call \<open>incrementStat(index + 2, _)\<close>.
  \<open>statButtons\<close> lists the calls the rendered buttons make.
\<close>

definition statButtons :: "MatchState \<Rightarrow> (int \<times> stat) list" where
  "statButtons s =
     (if \<not> isGameStarted s then []
      else concat (map (\<lambda>(index, player). [(int index, Winners), (int index, Unforced_errors)])
                       (enumerate 0 (take 2 (players s))))
         @ concat (map (\<lambda>(index, player).
                          [(int index + 2, Winners), (int index + 2, Unforced_errors)])
                       (enumerate 0 (take 2 (drop 2 (players s))))))"

subsection \<open>getTeamStats (lines 168 to 180)\<close>

datatype js_error = SyntaxError | TypeError

record TeamStats =
  team_winners :: int
  team_unforced_errors :: int
  team_score :: int

text \<open>
  \<open>matchState.players[playerIndex]\<close> is \<open>undefined\<close> past the end of the
  array, and reading a field of \<open>undefined\<close> throws a TypeError: the reduction
  stops there. Every \<open>teamIndex\<close> other than 0 selects the players 2 and 3.
\<close>

definition addPlayer :: "MatchState \<Rightarrow> js_error + TeamStats \<Rightarrow> nat \<Rightarrow> js_error + TeamStats" where
  "addPlayer s acc pIndex =
     (case acc of
        Inl e \<Rightarrow> Inl e
      | Inr total' \<Rightarrow>
          if pIndex < length (players s)
          then Inr \<lparr>team_winners = team_winners total' + winners (players s ! pIndex),
                    team_unforced_errors =
                      team_unforced_errors total' + unforced_errors (players s ! pIndex),
                    team_score = team_score total' + score (players s ! pIndex)\<rparr>
          else Inl TypeError)"

definition getTeamStats :: "int \<Rightarrow> MatchState \<Rightarrow> js_error + TeamStats" where
  "getTeamStats teamIndex s =
     (if \<not> isGameStarted s
      then Inr \<lparr>team_winners = 0, team_unforced_errors = 0, team_score = 0\<rparr>
      else let teamPlayers = (if teamIndex = 0 then [0, 1] else [2, 3])
           in foldl (addPlayer s)
                (Inr \<lparr>team_winners = 0, team_unforced_errors = 0, team_score = 0\<rparr>)
                teamPlayers)"

subsection \<open>getChartData (lines 182 to 212)\<close>

text \<open>
  A row of the chart is an object whose keys are \<open>point\<close>, \<open>zero\<close> and four
  computed keys. An object literal defines its properties from left to right, and a key
  that comes again overwrites the value the key has: \<open>AList.update\<close>, folded over
  the properties in their order.
\<close>

type_synonym row = "(string \<times> int) list"

definition objectLiteral :: "(string \<times> int) list \<Rightarrow> row" where
  "objectLiteral props = foldl (\<lambda>obj (k, v). AList.update k v obj) [] props"

text \<open>\<open>matchState.players[i]?.name || dflt\<close>: the default stands in when there
  is no such player and when the name is the empty string.\<close>

definition playerKey :: "MatchState \<Rightarrow> nat \<Rightarrow> string \<Rightarrow> string" where
  "playerKey s i dflt =
     (if i < length (players s) \<and> name (players s ! i) \<noteq> [] then name (players s ! i)
      else dflt)"

definition chartRow :: "MatchState \<Rightarrow> int \<Rightarrow> int \<Rightarrow> int \<Rightarrow> int \<Rightarrow> int \<Rightarrow> row" where
  "chartRow s pt s0 s1 s2 s3 =
     objectLiteral [(''point'', pt),
                    (''zero'', 0),
                    (playerKey s 0 ''Player 1'', s0),
                    (playerKey s 1 ''Player 2'', s1),
                    (playerKey s 2 ''Player 3'', s2),
                    (playerKey s 3 ''Player 4'', s3)]"

text \<open>
  \<open>playerScores[entry.playerIndex] += statValue\<close> on the array
  \<open>[0, 0, 0, 0]\<close>. With an index outside 0 to 3 the assignment makes a new property
  of the array (holding \<open>NaN\<close>) and leaves the four elements alone; the rows read
  nothing but these four, so the model keeps the four elements only.
\<close>

definition addScore :: "int list \<Rightarrow> int \<Rightarrow> int \<Rightarrow> int list" where
  "addScore playerScores pIndex v =
     (if 0 \<le> pIndex \<and> pIndex < int (length playerScores)
      then playerScores[nat pIndex := playerScores ! nat pIndex + v]
      else playerScores)"

text \<open>The body of \<open>forEach\<close>: the rows pushed for the entries, from the scores
  so far.\<close>

fun chartRows :: "MatchState \<Rightarrow> int list \<Rightarrow> StatEntry list \<Rightarrow> row list" where
  "chartRows s playerScores [] = []"
| "chartRows s playerScores (entry # entries) =
     (let playerScores' = addScore playerScores (playerIndex entry) (statValue (stat entry))
      in chartRow s (point entry) (playerScores' ! 0) (playerScores' ! 1)
                    (playerScores' ! 2) (playerScores' ! 3)
         # chartRows s playerScores' entries)"

text \<open>The array \<open>playerScores\<close> once \<open>forEach\<close> has gone through the given
  entries.\<close>

definition scoresAfter :: "int list \<Rightarrow> StatEntry list \<Rightarrow> int list" where
  "scoresAfter playerScores entries =
     foldl (\<lambda>ps entry. addScore ps (playerIndex entry) (statValue (stat entry)))
           playerScores entries"

definition getChartData :: "MatchState \<Rightarrow> row list" where
  "getChartData s =
     chartRow s 0 0 0 0 0
     # (if statHistory s \<noteq> [] then chartRows s [0, 0, 0, 0] (statHistory s) else [])"

section \<open>Files, the stored item and the page's state cell\<close>

text \<open>
  \<open>JSON.stringify\<close> and \<open>JSON.parse\<close> belong to the platform, not to the page.
  The model works on documents: a text is the empty string, or another text that is not
  JSON, or the text of one document. \<open>JSON.parse\<close> throws a SyntaxError on the
  first two and returns the document of the third; \<open>JSON.stringify\<close> writes the text of the document it
  is given. That a text written by \<open>JSON.stringify\<close> parses back to the same
  document is the platform's guarantee for documents of finite numbers, strings,
  booleans, arrays and plain objects, which are the only values the page holds; it is
  built into this representation and is not proved here. A number of a document is an
  integer, as everywhere in the model. The fields of an object are in the order the
  object was built in, each key once.
\<close>

datatype json =
  JNull | JBool bool | JNum int | JStr string | JArr "json list" | JObj "(string \<times> json) list"

datatype file_text = EmptyText | NotJSON | JSONText json

definition JSON_stringify :: "json \<Rightarrow> file_text" where
  "JSON_stringify v = JSONText v"

fun JSON_parse :: "file_text \<Rightarrow> js_error + json" where
  "JSON_parse EmptyText = Inl SyntaxError"
| "JSON_parse NotJSON = Inl SyntaxError"
| "JSON_parse (JSONText v) = Inr v"

text \<open>The objects the typed code builds, as the values they are at run time (the
  types of TypeScript are erased).\<close>

definition json_of_stat :: "stat \<Rightarrow> json" where
  "json_of_stat st = (case st of Winners \<Rightarrow> JStr ''winners''
                               | Unforced_errors \<Rightarrow> JStr ''unforced_errors'')"

definition json_of_PlayerStats :: "PlayerStats \<Rightarrow> json" where
  "json_of_PlayerStats p =
     JObj [(''name'', JStr (name p)), (''winners'', JNum (winners p)),
           (''unforced_errors'', JNum (unforced_errors p)), (''score'', JNum (score p))]"

definition json_of_StatEntry :: "StatEntry \<Rightarrow> json" where
  "json_of_StatEntry e =
     JObj [(''point'', JNum (point e)), (''playerIndex'', JNum (playerIndex e)),
           (''stat'', json_of_stat (stat e)), (''timestamp'', JNum (timestamp e))]"

definition json_of_MatchState :: "MatchState \<Rightarrow> json" where
  "json_of_MatchState s =
     JObj [(''players'', JArr (map json_of_PlayerStats (players s))),
           (''isGameStarted'', JBool (isGameStarted s)),
           (''statHistory'', JArr (map json_of_StatEntry (statHistory s)))]"

text \<open>
  The state of the page: the value held by \<open>useState<MatchState>\<close>, the four name
  fields, and the item \<open>padelMatch\<close> of \<open>localStorage\<close> (\<open>None\<close> when the
  key is absent). The cell holds a run-time value: \<open>importMatchData\<close> stores
  whatever the file held. \<open>stateObject\<close> is the identity of the object in the cell:
  every call of \<open>setMatchState\<close> in the page stores a fresh object, and React
  compares the dependency of an effect by identity.
\<close>

record app =
  matchState :: json
  stateObject :: nat
  playerNames :: "string list"
  localStorage :: "file_text option"

definition setMatchState :: "json \<Rightarrow> app \<Rightarrow> app" where
  "setMatchState v a = a\<lparr>matchState := v, stateObject := Suc (stateObject a)\<rparr>"

subsection \<open>The effect that loads the stored item (lines 35 to 40)\<close>

text \<open>
  It runs once, when the page is mounted. \<open>if (savedState)\<close> lets through every
  stored text but the empty one; an absent key gives \<open>null\<close>. Nothing catches what
  \<open>JSON.parse\<close> throws here.
\<close>

definition loadSavedState :: "app \<Rightarrow> js_error + app" where
  "loadSavedState a =
     (case localStorage a of
        None \<Rightarrow> Inr a
      | Some savedState \<Rightarrow>
          if savedState = EmptyText then Inr a
          else (case JSON_parse savedState of
                  Inl e \<Rightarrow> Inl e
                | Inr v \<Rightarrow> Inr (setMatchState v a)))"

subsection \<open>The effect that persists the state (lines 42 to 44)\<close>

definition persistEffect :: "app \<Rightarrow> app" where
  "persistEffect a = a\<lparr>localStorage := Some (JSON_stringify (matchState a))\<rparr>"

text \<open>
  After a handler has run, React renders the page again and runs the effect when its
  dependency \<open>matchState\<close> is another object than at the render before.
  \<open>afterRender before after\<close> is the page once the effects of that render have
  run, \<open>before\<close> being the page the handler started from.
\<close>

definition afterRender :: "app \<Rightarrow> app \<Rightarrow> app" where
  "afterRender before after =
     (if stateObject after \<noteq> stateObject before then persistEffect after else after)"

subsection \<open>resetMatch (lines 113 to 119)\<close>

text \<open>\<open>confirm\<close> is the answer of \<open>window.confirm\<close>.\<close>

definition resetMatch :: "bool \<Rightarrow> app \<Rightarrow> app" where
  "resetMatch confirm a =
     (if confirm
      then (setMatchState (json_of_MatchState initialState) a)
             \<lparr>playerNames := [[], [], [], []], localStorage := None\<rparr>
      else a)"

subsection \<open>exportMatchData (lines 121 to 139)\<close>

text \<open>The text put into the downloaded file; \<open>isoDate\<close> is what
  \<open>new Date().toISOString()\<close> returns.\<close>

definition exportMatchData :: "string \<Rightarrow> app \<Rightarrow> file_text" where
  "exportMatchData isoDate a =
     JSON_stringify (JObj [(''matchState'', matchState a),
                           (''timestamp'', JStr isoDate),
                           (''version'', JStr ''1.0'')])"

subsection \<open>importMatchData (lines 141 to 166)\<close>

text \<open>
  Reading a property: of \<open>null\<close> it throws a TypeError; of an object it gives the
  field, or \<open>undefined\<close> (here \<open>None\<close>) when there is none; of a number, a
  string, a boolean or an array it gives \<open>undefined\<close> for the three names the
  handler reads (\<open>matchState\<close>, \<open>players\<close>, \<open>statHistory\<close>).
\<close>

fun getProperty :: "json \<Rightarrow> string \<Rightarrow> js_error + json option" where
  "getProperty JNull k = Inl TypeError"
| "getProperty (JObj kvs) k = Inr (map_of kvs k)"
| "getProperty v k = Inr None"

fun truthy :: "json option \<Rightarrow> bool" where
  "truthy None = False"
| "truthy (Some JNull) = False"
| "truthy (Some (JBool b)) = b"
| "truthy (Some (JNum n)) = (n \<noteq> 0)"
| "truthy (Some (JStr s)) = (s \<noteq> [])"
| "truthy (Some (JArr xs)) = True"
| "truthy (Some (JObj kvs)) = True"

fun isArray :: "json option \<Rightarrow> bool" where
  "isArray (Some (JArr xs)) = True"
| "isArray v = False"

text \<open>
  The condition of line 150,
  \<open>importedData.matchState && importedData.matchState.players &&
  Array.isArray(importedData.matchState.statHistory)\<close>, evaluated from left to right:
  \<open>Inr (Some ms)\<close> when it holds, \<open>ms\<close> being \<open>importedData.matchState\<close>;
  \<open>Inr None\<close> when it does not; \<open>Inl e\<close> when evaluating it throws.
\<close>

definition checkedMatchState :: "json \<Rightarrow> js_error + json option" where
  "checkedMatchState importedData =
     (case getProperty importedData ''matchState'' of
        Inl e \<Rightarrow> Inl e
      | Inr None \<Rightarrow> Inr None
      | Inr (Some ms) \<Rightarrow>
          if \<not> truthy (Some ms) then Inr None
          else (case getProperty ms ''players'' of
                  Inl e \<Rightarrow> Inl e
                | Inr ps \<Rightarrow>
                    if \<not> truthy ps then Inr None
                    else (case getProperty ms ''statHistory'' of
                            Inl e \<Rightarrow> Inl e
                          | Inr h \<Rightarrow> if isArray h then Inr (Some ms) else Inr None)))"

text \<open>
  The two alerts of the handler, under the names the specification gives the errors:
  \<open>InvalidFormat\<close> is ``Invalid file format. Please select a valid padel match
  export file.'' (line 156), \<open>ParseFailure\<close> is ``Error reading file. Please make
  sure it's a valid JSON file.'' (line 159), shown by the \<open>catch\<close> for whatever
  the \<open>try\<close> block throws.
\<close>

datatype alert = InvalidFormat | ParseFailure

text \<open>
  \<open>reader.onload\<close>, with the text of the file and the answer \<open>confirm\<close> of
  \<open>window.confirm\<close>: the alert shown, if any, and the page after the handler.
\<close>

definition importMatchData :: "bool \<Rightarrow> file_text \<Rightarrow> app \<Rightarrow> alert option \<times> app" where
  "importMatchData confirm result a =
     (case JSON_parse result of
        Inl e \<Rightarrow> (Some ParseFailure, a)
      | Inr importedData \<Rightarrow>
          (case checkedMatchState importedData of
             Inl e \<Rightarrow> (Some ParseFailure, a)
           | Inr None \<Rightarrow> (Some InvalidFormat, a)
           | Inr (Some ms) \<Rightarrow>
               (let a' = setMatchState ms a
                in (None, if confirm
                          then a'\<lparr>localStorage := Some (JSON_stringify ms)\<rparr>
                          else a'))))"

text \<open>The handler followed by the render it causes.\<close>

definition importAndRender :: "bool \<Rightarrow> file_text \<Rightarrow> app \<Rightarrow> alert option \<times> app" where
  "importAndRender confirm result a =
     (case importMatchData confirm result a of (shown, a') \<Rightarrow> (shown, afterRender a a'))"

definition resetAndRender :: "bool \<Rightarrow> app \<Rightarrow> app" where
  "resetAndRender confirm a = afterRender a (resetMatch confirm a)"

section \<open>Notions of the specification\<close>

text \<open>
  The shape the specification gives a match state: four players once the match has
  started, none before.
\<close>

definition wellFormed :: "MatchState \<Rightarrow> bool" where
  "wellFormed s =
     ((isGameStarted s \<and> length (players s) = 4) \<or> (\<not> isGameStarted s \<and> players s = []))"

text \<open>
  The stored item as the specification reads it (section 6): the key counts as deleted
  when it is absent, and also when the item is the text of the empty state that has not
  started, since writing that state is taken to be the same as deleting the key.
\<close>

definition keyDeleted :: "file_text option \<Rightarrow> bool" where
  "keyDeleted item =
     (item = None \<or> item = Some (JSON_stringify (json_of_MatchState initialState)))"

text \<open>The field of a document under a key, if the document has one; \<open>null\<close>
  has no field.\<close>

definition fieldOf :: "json \<Rightarrow> string \<Rightarrow> json option" where
  "fieldOf v k = (case getProperty v k of Inl e \<Rightarrow> None | Inr r \<Rightarrow> r)"

text \<open>The invariant of the specification between the log and the counters.\<close>

definition logInvariant :: "MatchState \<Rightarrow> bool" where
  "logInvariant s =
     (int (length (statHistory s)) =
        sum_list (map (\<lambda>p. winners p + unforced_errors p) (players s)))"

text \<open>
  \<open>valueOf\<close>, \<open>applyEvent\<close> and \<open>projectAll\<close> as the specification words
  them: an event changes the player at its index only, whose matching counter goes up
  by one and whose score goes up by the value of the kind; replaying a log folds that
  over the log from a roster of zeros.
\<close>

fun valueOf :: "stat \<Rightarrow> int" where
  "valueOf Winners = 2"
| "valueOf Unforced_errors = - 1"

fun counted :: "stat \<Rightarrow> PlayerStats \<Rightarrow> PlayerStats" where
  "counted Winners p = p\<lparr>winners := winners p + 1\<rparr>"
| "counted Unforced_errors p = p\<lparr>unforced_errors := unforced_errors p + 1\<rparr>"

definition applyEvent :: "PlayerStats list \<Rightarrow> StatEntry \<Rightarrow> PlayerStats list" where
  "applyEvent roster e =
     (if 0 \<le> playerIndex e \<and> playerIndex e < int (length roster)
      then roster[nat (playerIndex e) :=
                    (counted (stat e) (roster ! nat (playerIndex e)))
                      \<lparr>score := score (roster ! nat (playerIndex e)) + valueOf (stat e)\<rparr>]
      else roster)"

definition zeroRoster :: "PlayerStats list \<Rightarrow> PlayerStats list" where
  "zeroRoster roster =
     map (\<lambda>p. \<lparr>name = name p, winners = 0, unforced_errors = 0, score = 0\<rparr>) roster"

definition projectAll :: "PlayerStats list \<Rightarrow> StatEntry list \<Rightarrow> PlayerStats list" where
  "projectAll roster eventLog = foldl applyEvent (zeroRoster roster) eventLog"

text \<open>
  The states the page can be in: the initial one, and those reached from a reachable
  one by starting a match from the four name fields, by a call of
  \<open>incrementStat\<close>, by a reset, or by importing the file exported from a
  reachable state. The array of the name fields has four entries at all times (lines
  33 and 116, and the input fields, which replace one entry each). The calls of
  \<open>incrementStat\<close> are not restricted to those its two callers make.
\<close>

inductive reachable :: "MatchState \<Rightarrow> bool" where
  initial: "reachable initialState"
| started: "reachable s \<Longrightarrow> length names = 4 \<Longrightarrow> reachable (startMatch names s)"
| scored: "reachable s \<Longrightarrow> reachable (incrementStat pIndex st now s)"
| reset: "reachable s \<Longrightarrow> matchState a = json_of_MatchState s \<Longrightarrow>
            matchState (resetMatch confirm a) = json_of_MatchState s' \<Longrightarrow> reachable s'"
| imported: "reachable s \<Longrightarrow> reachable t \<Longrightarrow>
            matchState a = json_of_MatchState s \<Longrightarrow> matchState b = json_of_MatchState t \<Longrightarrow>
            importMatchData confirm (exportMatchData isoDate a) b = (None, b') \<Longrightarrow>
            matchState b' = json_of_MatchState t' \<Longrightarrow> reachable t'"

text \<open>A run of calls of \<open>incrementStat\<close>, each with its index, its kind and its
  time.\<close>

fun appends :: "(int \<times> stat \<times> int) list \<Rightarrow> MatchState \<Rightarrow> MatchState" where
  "appends [] s = s"
| "appends ((pIndex, st, now) # calls) s = appends calls (incrementStat pIndex st now s)"

section \<open>An example match\<close>

text \<open>The match of the scenario in the specification: the four players A, B, C and D,
  no point played yet.\<close>

definition exampleMatch :: MatchState where
  "exampleMatch = startMatch [''A'', ''B'', ''C'', ''D''] initialState"

text \<open>The scenario goes on with a winner of player 0 and an unforced error of
  player 2.\<close>

definition examplePlay :: MatchState where
  "examplePlay = appends [(0, Winners, 1700), (2, Unforced_errors, 1800)] exampleMatch"

text \<open>A match whose first player is called ``point'', after a winner of that
  player.\<close>

definition pointMatch :: MatchState where
  "pointMatch =
     incrementStat 0 Winners 1700 (startMatch [''point'', ''B'', ''C'', ''D''] initialState)"

text \<open>The same with a first player called ``zero''.\<close>

definition zeroMatch :: MatchState where
  "zeroMatch =
     incrementStat 0 Winners 1700 (startMatch [''zero'', ''B'', ''C'', ''D''] initialState)"

section \<open>Properties of incrementStat\<close>

lemma statHistory_incrementStat:
  "statHistory (incrementStat i st now prev) =
     statHistory prev @ [\<lparr>point = int (length (statHistory prev)) + 1, playerIndex = i,
                          stat = st, timestamp = now\<rparr>]"
  by (simp add: incrementStat_def)

lemma isGameStarted_incrementStat:
  "isGameStarted (incrementStat i st now prev) = isGameStarted prev"
  by (simp add: incrementStat_def)

lemma length_players_incrementStat:
  "length (players (incrementStat i st now prev)) = length (players prev)"
  by (simp add: incrementStat_def)

lemma nth_players_incrementStat:
  assumes "j < length (players prev)"
  shows "players (incrementStat i st now prev) ! j =
           (if int j = i then bumped st (players prev ! j) else players prev ! j)"
  using assms by (simp add: incrementStat_def nth_enumerate_eq)

lemma name_bumped: "name (bumped st p) = name p"
  by (cases st) (simp_all add: bumped_def)

lemma score_bumped: "score (bumped st p) = score p + statValue st"
  by (cases st) (simp_all add: bumped_def)

lemma winners_bumped: "winners (bumped st p) = winners p + (if st = Winners then 1 else 0)"
  by (cases st) (simp_all add: bumped_def)

lemma unforced_errors_bumped:
  "unforced_errors (bumped st p) = unforced_errors p + (if st = Unforced_errors then 1 else 0)"
  by (cases st) (simp_all add: bumped_def)

lemma statValue_valueOf: "statValue st = valueOf st"
  by (cases st) (simp_all add: statValue_def)

lemma bumped_counted:
  "bumped st p = (counted st p)\<lparr>score := score p + valueOf st\<rparr>"
  by (cases st) (simp_all add: bumped_def statValue_def)

lemma players_incrementStat_applyEvent:
  "players (incrementStat i st now prev) =
     applyEvent (players prev) \<lparr>point = pt, playerIndex = i, stat = st, timestamp = now\<rparr>"
proof (rule nth_equalityI)
  show "length (players (incrementStat i st now prev)) =
        length (applyEvent (players prev) \<lparr>point = pt, playerIndex = i, stat = st, timestamp = now\<rparr>)"
    by (simp add: length_players_incrementStat applyEvent_def)
next
  fix j assume "j < length (players (incrementStat i st now prev))"
  then have j: "j < length (players prev)" by (simp add: length_players_incrementStat)
  show "players (incrementStat i st now prev) ! j =
        applyEvent (players prev) \<lparr>point = pt, playerIndex = i, stat = st, timestamp = now\<rparr> ! j"
  proof (cases "int j = i")
    case True
    then have "nat i = j" and "0 \<le> i" and "i < int (length (players prev))"
      using j by simp_all
    with j True show ?thesis
      by (simp add: nth_players_incrementStat applyEvent_def bumped_counted)
  next
    case False
    with j show ?thesis
      by (auto simp add: nth_players_incrementStat applyEvent_def nth_list_update)
  qed
qed

lemma inj_json_of_PlayerStats: "inj json_of_PlayerStats"
proof (rule injI)
  fix p q assume "json_of_PlayerStats p = json_of_PlayerStats q"
  then show "p = q" by (cases p, cases q) (simp add: json_of_PlayerStats_def)
qed

lemma inj_json_of_StatEntry: "inj json_of_StatEntry"
proof (rule injI)
  fix e f assume "json_of_StatEntry e = json_of_StatEntry f"
  then show "e = f"
    by (cases e, cases f) (auto simp add: json_of_StatEntry_def json_of_stat_def split: stat.splits)
qed

lemma inj_json_of_MatchState:
  assumes "json_of_MatchState s = json_of_MatchState t"
  shows "s = t"
proof -
  from assms have p: "map json_of_PlayerStats (players s) = map json_of_PlayerStats (players t)"
    and g: "isGameStarted s = isGameStarted t"
    and h: "map json_of_StatEntry (statHistory s) = map json_of_StatEntry (statHistory t)"
    by (simp_all add: json_of_MatchState_def)
  from p have "players s = players t"
    by (simp add: inj_map_eq_map [OF inj_json_of_PlayerStats])
  moreover from h have "statHistory s = statHistory t"
    by (simp add: inj_map_eq_map [OF inj_json_of_StatEntry])
  ultimately show ?thesis using g by (cases s, cases t) simp
qed

lemma checkedMatchState_export:
  "checkedMatchState (JObj [(''matchState'', json_of_MatchState s), (''timestamp'', JStr d),
                            (''version'', JStr v)]) = Inr (Some (json_of_MatchState s))"
  by (simp add: checkedMatchState_def json_of_MatchState_def)

lemma import_export:
  assumes "matchState a = json_of_MatchState s"
  shows "importMatchData confirm (exportMatchData isoDate a) b =
           (None, if confirm
                  then (setMatchState (json_of_MatchState s) b)
                         \<lparr>localStorage := Some (JSON_stringify (json_of_MatchState s))\<rparr>
                  else setMatchState (json_of_MatchState s) b)"
  using assms
  by (simp add: importMatchData_def exportMatchData_def JSON_stringify_def
      checkedMatchState_export)

lemma matchState_setMatchState: "matchState (setMatchState v a) = v"
  by (simp add: setMatchState_def)

lemma reachable_cases_typed [consumes 1, case_names initial started scored]:
  assumes r: "reachable s"
    and i: "P initialState"
    and st: "\<And>s names. reachable s \<Longrightarrow> P s \<Longrightarrow> length names = 4 \<Longrightarrow> P (startMatch names s)"
    and sc: "\<And>s pIndex st now. reachable s \<Longrightarrow> P s \<Longrightarrow> P (incrementStat pIndex st now s)"
  shows "P s"
  using r
proof (induction rule: reachable.induct)
  case initial
  show ?case by (rule i)
next
  case (started s names)
  then show ?case by (simp add: st)
next
  case (scored s pIndex st now)
  then show ?case by (simp add: sc)
next
  case (reset s a confirm s')
  show ?case
  proof (cases confirm)
    case True
    with reset have "json_of_MatchState s' = json_of_MatchState initialState"
      by (simp add: resetMatch_def setMatchState_def)
    then have "s' = initialState" by (rule inj_json_of_MatchState)
    then show ?thesis using i by simp
  next
    case False
    with reset have "json_of_MatchState s' = json_of_MatchState s"
      by (simp add: resetMatch_def)
    then have "s' = s" by (rule inj_json_of_MatchState)
    then show ?thesis using reset by simp
  qed
next
  case (imported s t a b confirm isoDate b' t')
  from imported(3) have "importMatchData confirm (exportMatchData isoDate a) b =
           (None, if confirm
                  then (setMatchState (json_of_MatchState s) b)
                         \<lparr>localStorage := Some (JSON_stringify (json_of_MatchState s))\<rparr>
                  else setMatchState (json_of_MatchState s) b)"
    by (rule import_export)
  with imported(5) have "matchState b' = json_of_MatchState s"
    by (auto simp add: setMatchState_def split: if_splits)
  with imported(6) have "json_of_MatchState t' = json_of_MatchState s" by simp
  then have "t' = s" by (rule inj_json_of_MatchState)
  then show ?case using imported by simp
qed

lemma exampleMatch_eq:
  "exampleMatch =
     \<lparr>players = [\<lparr>name = ''A'', winners = 0, unforced_errors = 0, score = 0\<rparr>,
                 \<lparr>name = ''B'', winners = 0, unforced_errors = 0, score = 0\<rparr>,
                 \<lparr>name = ''C'', winners = 0, unforced_errors = 0, score = 0\<rparr>,
                 \<lparr>name = ''D'', winners = 0, unforced_errors = 0, score = 0\<rparr>],
      isGameStarted = True, statHistory = []\<rparr>"
  by (simp add: exampleMatch_def startMatch_def trim_def whitespace_def)

lemma sum_list_update_int:
  fixes xs :: "int list"
  shows "k < length xs \<Longrightarrow> sum_list (xs[k := x]) = sum_list xs + x - xs ! k"
  by (induction xs arbitrary: k) (auto split: nat.splits)

text \<open>
  \<^bold>\<open>C5.\<close> In a started match of four players, a call of \<open>incrementStat\<close> with an
  index from 0 to 3 changes the player at that index and no other: for a winner the
  player's \<open>winners\<close> go up by 1 and the score by 2, for an unforced error the
  player's \<open>unforced_errors\<close> go up by 1 and the score goes down by 1; the other
  counter and the name of that player stay, and so does every other player.
\<close>

theorem incrementStat_one_player:
  assumes "isGameStarted prev" and "length (players prev) = 4"
    and "0 \<le> pIndex" and "pIndex \<le> 3"
  shows "length (players (incrementStat pIndex st now prev)) = 4
    \<and> (\<forall>j<4. int j \<noteq> pIndex \<longrightarrow>
          players (incrementStat pIndex st now prev) ! j = players prev ! j)
    \<and> name (players (incrementStat pIndex st now prev) ! nat pIndex) =
        name (players prev ! nat pIndex)
    \<and> (case st of
          Winners \<Rightarrow>
            winners (players (incrementStat pIndex st now prev) ! nat pIndex) =
              winners (players prev ! nat pIndex) + 1
          \<and> unforced_errors (players (incrementStat pIndex st now prev) ! nat pIndex) =
              unforced_errors (players prev ! nat pIndex)
          \<and> score (players (incrementStat pIndex st now prev) ! nat pIndex) =
              score (players prev ! nat pIndex) + 2
        | Unforced_errors \<Rightarrow>
            unforced_errors (players (incrementStat pIndex st now prev) ! nat pIndex) =
              unforced_errors (players prev ! nat pIndex) + 1
          \<and> winners (players (incrementStat pIndex st now prev) ! nat pIndex) =
              winners (players prev ! nat pIndex)
          \<and> score (players (incrementStat pIndex st now prev) ! nat pIndex) =
              score (players prev ! nat pIndex) - 1)"
proof -
  from assms have k: "nat pIndex < length (players prev)" and e: "int (nat pIndex) = pIndex"
    by simp_all
  have new: "players (incrementStat pIndex st' now prev) ! nat pIndex =
               bumped st' (players prev ! nat pIndex)" for st'
    using k e by (simp add: nth_players_incrementStat)
  have others: "\<forall>j<4. int j \<noteq> pIndex \<longrightarrow>
          players (incrementStat pIndex st now prev) ! j = players prev ! j"
    using assms(2) by (simp add: nth_players_incrementStat)
  show ?thesis
    using others assms(2)
    by (cases st)
      (simp_all add: new name_bumped length_players_incrementStat bumped_def statValue_def)
qed

theorem incrementStat_one_player_witness:
  "isGameStarted exampleMatch \<and> length (players exampleMatch) = 4 \<and> (0::int) \<le> 2 \<and> (2::int) \<le> 3
   \<and> players (incrementStat 2 Unforced_errors 1700 exampleMatch) ! 0 = players exampleMatch ! 0
   \<and> players (incrementStat 2 Unforced_errors 1700 exampleMatch) ! 3 = players exampleMatch ! 3
   \<and> name (players (incrementStat 2 Unforced_errors 1700 exampleMatch) ! 2) = ''C''
   \<and> unforced_errors (players (incrementStat 2 Unforced_errors 1700 exampleMatch) ! 2) = 1
   \<and> score (players (incrementStat 2 Unforced_errors 1700 exampleMatch) ! 2) = - 1"
proof -
  have h: "isGameStarted exampleMatch" "length (players exampleMatch) = 4"
    by (simp_all add: exampleMatch_eq)
  have v: "players exampleMatch ! 2 = \<lparr>name = ''C'', winners = 0, unforced_errors = 0, score = 0\<rparr>"
    by (simp add: exampleMatch_eq)
  from incrementStat_one_player [OF h, of 2 Unforced_errors 1700]
  show ?thesis using h by (simp add: v)
qed

subsection \<open>The log of a run of calls\<close>

lemma appends_append: "appends (xs @ ys) s = appends ys (appends xs s)"
  by (induction xs arbitrary: s) auto

lemma statHistory_appends_prefix:
  "\<exists>new. statHistory (appends calls s) = statHistory s @ new \<and> length new = length calls"
proof (induction calls arbitrary: s)
  case Nil
  show ?case by simp
next
  case (Cons c calls)
  obtain i st now where c: "c = (i, st, now)" by (cases c)
  from Cons [of "incrementStat i st now s"] obtain new where
    "statHistory (appends calls (incrementStat i st now s)) =
       statHistory (incrementStat i st now s) @ new" and "length new = length calls"
    by blast
  then show ?case
    by (simp add: c statHistory_incrementStat)
qed

lemma length_statHistory_appends:
  "length (statHistory (appends calls s)) = length (statHistory s) + length calls"
  using statHistory_appends_prefix [of calls s] by auto

lemma points_appends:
  "map point (statHistory (appends calls s)) =
     map point (statHistory s) @
     map int [Suc (length (statHistory s)) ..< Suc (length (statHistory s)) + length calls]"
proof (induction calls arbitrary: s)
  case Nil
  show ?case by simp
next
  case (Cons c calls)
  obtain i st now where c: "c = (i, st, now)" by (cases c)
  define n where "n = length (statHistory s)"
  have len: "length (statHistory (incrementStat i st now s)) = Suc n"
    by (simp add: statHistory_incrementStat n_def)
  have pts: "map point (statHistory (incrementStat i st now s)) =
               map point (statHistory s) @ [int (Suc n)]"
    by (simp add: statHistory_incrementStat n_def)
  have "map point (statHistory (appends (c # calls) s)) =
          map point (statHistory (appends calls (incrementStat i st now s)))"
    by (simp add: c)
  also have "\<dots> = (map point (statHistory s) @ [int (Suc n)]) @
                   map int [Suc (Suc n) ..< Suc (Suc n) + length calls]"
    unfolding Cons [of "incrementStat i st now s"] len pts ..
  also have "\<dots> = map point (statHistory s) @ map int (Suc n # [Suc (Suc n) ..< Suc (Suc n) + length calls])"
    by simp
  also have "Suc n # [Suc (Suc n) ..< Suc (Suc n) + length calls] =
               [Suc n ..< Suc n + length (c # calls)]"
  proof -
    have lt: "Suc n < Suc n + length (c # calls)" by simp
    have eq: "Suc n + length (c # calls) = Suc (Suc n) + length calls" by simp
    show ?thesis using upt_conv_Cons [OF lt] unfolding eq by (rule sym)
  qed
  finally show ?case unfolding n_def .
qed

lemma calls_appends:
  "map (\<lambda>e. (playerIndex e, stat e, timestamp e)) (statHistory (appends calls s)) =
     map (\<lambda>e. (playerIndex e, stat e, timestamp e)) (statHistory s) @ calls"
proof (induction calls arbitrary: s)
  case Nil
  show ?case by simp
next
  case (Cons c calls)
  obtain i st now where c: "c = (i, st, now)" by (cases c)
  show ?case by (simp add: c Cons statHistory_incrementStat)
qed

lemma statHistory_appends_take:
  assumes "k \<le> length calls"
  shows "statHistory (appends (take k calls) s) =
           take (length (statHistory s) + k) (statHistory (appends calls s))"
proof -
  have "appends calls s = appends (drop k calls) (appends (take k calls) s)"
    using appends_append [of "take k calls" "drop k calls" s] by simp
  moreover obtain new where
    "statHistory (appends (drop k calls) (appends (take k calls) s)) =
       statHistory (appends (take k calls) s) @ new"
    using statHistory_appends_prefix by blast
  moreover have "length (statHistory (appends (take k calls) s)) = length (statHistory s) + k"
    using assms by (simp add: length_statHistory_appends)
  ultimately show ?thesis by simp
qed

lemma statHistory_startMatch:
  "list_all (\<lambda>n. trim n \<noteq> []) names \<Longrightarrow> statHistory (startMatch names prev) = []"
  by (simp add: startMatch_def)

text \<open>
  \<^bold>\<open>C6.\<close> After any run of calls of \<open>incrementStat\<close> on a match that has just
  been started, the log has one entry for each call, the \<open>point\<close> fields are
  1, 2, and so on up to the number of calls, in the order of the log, and the log after
  the first \<open>k\<close> calls is the first \<open>k\<close> entries of the final log: a later call
  neither changes nor drops an earlier entry. The entries carry the index, the kind and
  the time of their calls.
\<close>

theorem appends_log:
  assumes "list_all (\<lambda>n. trim n \<noteq> []) names"
  shows "length (statHistory (appends calls (startMatch names prev))) = length calls
    \<and> map point (statHistory (appends calls (startMatch names prev))) =
        map int [1 ..< Suc (length calls)]
    \<and> map (\<lambda>e. (playerIndex e, stat e, timestamp e))
          (statHistory (appends calls (startMatch names prev))) = calls
    \<and> (\<forall>k\<le>length calls.
          statHistory (appends (take k calls) (startMatch names prev)) =
            take k (statHistory (appends calls (startMatch names prev))))"
proof -
  have e: "statHistory (startMatch names prev) = []"
    using assms by (rule statHistory_startMatch)
  have "length (statHistory (appends calls (startMatch names prev))) = length calls"
    by (simp add: length_statHistory_appends e)
  moreover have "map point (statHistory (appends calls (startMatch names prev))) =
        map int [1 ..< Suc (length calls)]"
    by (simp add: points_appends e)
  moreover have "map (\<lambda>e. (playerIndex e, stat e, timestamp e))
          (statHistory (appends calls (startMatch names prev))) = calls"
    by (simp add: calls_appends e)
  moreover have "\<forall>k\<le>length calls.
          statHistory (appends (take k calls) (startMatch names prev)) =
            take k (statHistory (appends calls (startMatch names prev)))"
    by (simp add: statHistory_appends_take e)
  ultimately show ?thesis by blast
qed

theorem appends_log_witness:
  "list_all (\<lambda>n. trim n \<noteq> []) [''A'', ''B'', ''C'', ''D'']
   \<and> map point (statHistory (appends [(0, Winners, 1700), (2, Unforced_errors, 1800), (7, Winners, 1900)]
        (startMatch [''A'', ''B'', ''C'', ''D''] initialState))) = [1, 2, 3]
   \<and> statHistory (appends [(0, Winners, 1700)] (startMatch [''A'', ''B'', ''C'', ''D''] initialState)) =
       take 1 (statHistory (appends [(0, Winners, 1700), (2, Unforced_errors, 1800), (7, Winners, 1900)]
        (startMatch [''A'', ''B'', ''C'', ''D''] initialState)))"
proof -
  have h: "list_all (\<lambda>n. trim n \<noteq> []) [''A'', ''B'', ''C'', ''D'']"
    by (simp add: trim_def whitespace_def)
  have u: "[1 ..< Suc (length [(0::int, Winners, 1700::int), (2, Unforced_errors, 1800), (7, Winners, 1900)])]
           = [1, 2, 3]"
    by (simp add: upt_conv_Cons)
  from appends_log [OF h, of "[(0, Winners, 1700), (2, Unforced_errors, 1800), (7, Winners, 1900)]"
      initialState]
  have "map point (statHistory (appends [(0, Winners, 1700), (2, Unforced_errors, 1800), (7, Winners, 1900)]
        (startMatch [''A'', ''B'', ''C'', ''D''] initialState))) = map int [1, 2, 3]"
    and "\<forall>k\<le>3. statHistory (appends (take k [(0, Winners, 1700), (2, Unforced_errors, 1800), (7, Winners, 1900)])
            (startMatch [''A'', ''B'', ''C'', ''D''] initialState)) =
          take k (statHistory (appends [(0, Winners, 1700), (2, Unforced_errors, 1800), (7, Winners, 1900)]
            (startMatch [''A'', ''B'', ''C'', ''D''] initialState)))"
    unfolding u by simp_all
  from this(1) this(2) [rule_format, of 1] h show ?thesis by simp
qed

subsection \<open>Calls outside the precondition\<close>

lemma players_incrementStat_outside:
  assumes "pIndex < 0 \<or> int (length (players prev)) \<le> pIndex"
  shows "players (incrementStat pIndex st now prev) = players prev"
proof (rule nth_equalityI)
  show "length (players (incrementStat pIndex st now prev)) = length (players prev)"
    by (rule length_players_incrementStat)
next
  fix j assume "j < length (players (incrementStat pIndex st now prev))"
  then have j: "j < length (players prev)" by (simp add: length_players_incrementStat)
  with assms have "int j \<noteq> pIndex" by auto
  with j show "players (incrementStat pIndex st now prev) ! j = players prev ! j"
    by (simp add: nth_players_incrementStat)
qed

lemma counters_bumped:
  "winners (bumped st p) + unforced_errors (bumped st p) = winners p + unforced_errors p + 1"
  by (cases st) (simp_all add: bumped_def)

lemma counters_incrementStat_inside:
  assumes "0 \<le> pIndex" and "pIndex < int (length (players prev))"
  shows "sum_list (map (\<lambda>p. winners p + unforced_errors p)
                       (players (incrementStat pIndex st now prev))) =
         sum_list (map (\<lambda>p. winners p + unforced_errors p) (players prev)) + 1"
proof -
  let ?f = "\<lambda>p. winners p + unforced_errors p"
  let ?k = "nat pIndex"
  from assms have k: "?k < length (players prev)" by simp
  have "players (incrementStat pIndex st now prev) =
          (players prev)[?k := bumped st (players prev ! ?k)]"
    using assms
    by (simp add: players_incrementStat_applyEvent [where pt = 0] applyEvent_def bumped_counted)
  then have "map ?f (players (incrementStat pIndex st now prev)) =
               (map ?f (players prev))[?k := ?f (bumped st (players prev ! ?k))]"
    by (simp add: map_update)
  then have "sum_list (map ?f (players (incrementStat pIndex st now prev))) =
               sum_list (map ?f (players prev)) + ?f (bumped st (players prev ! ?k))
                 - map ?f (players prev) ! ?k"
    using k by (simp add: sum_list_update_int)
  then show ?thesis using k by (simp add: counters_bumped)
qed

lemma logInvariant_incrementStat_iff:
  assumes "logInvariant prev"
  shows "logInvariant (incrementStat pIndex st now prev) \<longleftrightarrow>
           0 \<le> pIndex \<and> pIndex < int (length (players prev))"
proof (cases "0 \<le> pIndex \<and> pIndex < int (length (players prev))")
  case True
  then show ?thesis
    using assms
    by (simp add: logInvariant_def statHistory_incrementStat counters_incrementStat_inside)
next
  case False
  then have "players (incrementStat pIndex st now prev) = players prev"
    by (intro players_incrementStat_outside) auto
  with False show ?thesis
    using assms by (simp add: logInvariant_def statHistory_incrementStat)
qed

lemma keyMap_range:
  assumes "map_of keyMap key = Some (pIndex, st)"
  shows "0 \<le> pIndex \<and> pIndex \<le> 3"
  using assms by (simp add: keyMap_def split: if_splits)

lemma statButtons_range:
  assumes "(pIndex, st) \<in> set (statButtons s)"
  shows "isGameStarted s \<and> 0 \<le> pIndex \<and> pIndex < int (length (players s))"
proof -
  from assms have started: "isGameStarted s"
    by (auto simp add: statButtons_def split: if_splits)
  from assms started have "0 \<le> pIndex \<and> pIndex < int (length (players s))"
    by (auto simp add: statButtons_def in_set_enumerate_eq)
  with started show ?thesis by simp
qed

text \<open>A call that the key handler makes with an index and a kind is made on a
  started match, with the index and the kind the table has for the key.\<close>

lemma handleKeyPress_typed:
  assumes "handleKeyPress inherited key s = Some (Some pIndex, Some st)"
  shows "isGameStarted s \<and> map_of keyMap key = Some (pIndex, st)
         \<and> 0 \<le> pIndex \<and> pIndex \<le> 3"
proof -
  from assms have started: "isGameStarted s"
    by (simp add: handleKeyPress_def split: if_splits)
  with assms have "map_of keyMap key = Some (pIndex, st)"
    by (cases "map_of keyMap key") (auto simp add: handleKeyPress_def split: if_splits)
  with started show ?thesis by (simp add: keyMap_range)
qed

text \<open>Under an inherited name the handler of a started match calls
  \<open>incrementStat(undefined, undefined)\<close>.\<close>

lemma handleKeyPress_inherited:
  assumes "isGameStarted s" and "key \<in> set inherited" and "map_of keyMap key = None"
  shows "handleKeyPress inherited key s = Some (None, None)"
  using assms by (simp add: handleKeyPress_def)

lemma handleKeyPress_toString:
  "handleKeyPress [''constructor'', ''toString'', ''valueOf''] ''toString'' exampleMatch =
     Some (None, None)"
  by (simp add: handleKeyPress_def exampleMatch_eq keyMap_def)

text \<open>
  \<^bold>\<open>C10.\<close> \<open>incrementStat\<close> checks neither \<open>isGameStarted\<close> nor the range of
  its index. On every state, a call with an index that is no position of the roster
  appends its entry to \<open>statHistory\<close> all the same and leaves every player and the
  flag as they are, so that the invariant between the length of the log and the
  counters, if it held, holds no more; on a roster of at most four players these are the
  calls with an index outside 0 to 3 and the calls on an empty roster. On a state of the
  shape the specification gives (four players once started, none before) on which the
  invariant holds, the call keeps the invariant exactly when the match has started and
  the index is from 0 to 3. The calls that the buttons of the score board make are of
  that kind, and so is every call that the key handler makes with an index and a kind
  (the eight keys of its table); the call that the key handler makes under an inherited
  name, with \<open>undefined\<close> for both, is not (\<open>handleKeyPress_inherited\<close>).
\<close>

theorem incrementStat_unchecked:
  "(pIndex < 0 \<or> int (length (players prev)) \<le> pIndex
      \<or> (length (players prev) \<le> 4 \<and> (3 < pIndex \<or> players prev = [])) \<longrightarrow>
        statHistory (incrementStat pIndex st now prev) =
          statHistory prev @ [\<lparr>point = int (length (statHistory prev)) + 1,
                               playerIndex = pIndex, stat = st, timestamp = now\<rparr>]
      \<and> players (incrementStat pIndex st now prev) = players prev
      \<and> isGameStarted (incrementStat pIndex st now prev) = isGameStarted prev
      \<and> (logInvariant prev \<longrightarrow> \<not> logInvariant (incrementStat pIndex st now prev)))
   \<and> (wellFormed prev \<and> logInvariant prev \<longrightarrow>
         (logInvariant (incrementStat pIndex st now prev) \<longleftrightarrow>
            isGameStarted prev \<and> 0 \<le> pIndex \<and> pIndex \<le> 3))
   \<and> (wellFormed prev \<and> logInvariant prev \<longrightarrow>
         (\<forall>c\<in>set (statButtons prev).
            logInvariant (incrementStat (fst c) (snd c) now prev))
         \<and> (\<forall>i k. handleKeyPress inherited key prev = Some (Some i, Some k) \<longrightarrow>
               logInvariant (incrementStat i k now prev)))"
proof -
  have outside: "statHistory (incrementStat pIndex st now prev) =
              statHistory prev @ [\<lparr>point = int (length (statHistory prev)) + 1,
                                   playerIndex = pIndex, stat = st, timestamp = now\<rparr>]
          \<and> players (incrementStat pIndex st now prev) = players prev
          \<and> isGameStarted (incrementStat pIndex st now prev) = isGameStarted prev
          \<and> (logInvariant prev \<longrightarrow> \<not> logInvariant (incrementStat pIndex st now prev))"
    if "pIndex < 0 \<or> int (length (players prev)) \<le> pIndex
          \<or> (length (players prev) \<le> 4 \<and> (3 < pIndex \<or> players prev = []))"
  proof -
    from that have out: "pIndex < 0 \<or> int (length (players prev)) \<le> pIndex"
      by auto
    then have "players (incrementStat pIndex st now prev) = players prev"
      by (rule players_incrementStat_outside)
    moreover have "logInvariant prev \<longrightarrow> \<not> logInvariant (incrementStat pIndex st now prev)"
      using out by (auto simp add: logInvariant_incrementStat_iff)
    ultimately show ?thesis
      by (simp add: statHistory_incrementStat isGameStarted_incrementStat)
  qed
  have exactly: "logInvariant (incrementStat pIndex st now prev) \<longleftrightarrow>
             isGameStarted prev \<and> 0 \<le> pIndex \<and> pIndex \<le> 3"
    if "wellFormed prev \<and> logInvariant prev"
    using that by (auto simp add: logInvariant_incrementStat_iff wellFormed_def)
  have callers: "(\<forall>c\<in>set (statButtons prev).
            logInvariant (incrementStat (fst c) (snd c) now prev))
         \<and> (\<forall>i k. handleKeyPress inherited key prev = Some (Some i, Some k) \<longrightarrow>
               logInvariant (incrementStat i k now prev))"
    if w: "wellFormed prev \<and> logInvariant prev"
  proof -
    have buttons: "logInvariant (incrementStat (fst c) (snd c) now prev)"
      if "c \<in> set (statButtons prev)" for c
    proof -
      from that have "(fst c, snd c) \<in> set (statButtons prev)" by simp
      then have "0 \<le> fst c \<and> fst c < int (length (players prev))"
        using statButtons_range by blast
      with w show ?thesis
        by (simp add: logInvariant_incrementStat_iff)
    qed
    have keys: "logInvariant (incrementStat i k now prev)"
      if "handleKeyPress inherited key prev = Some (Some i, Some k)" for i k
    proof -
      from handleKeyPress_typed [OF that]
      have "isGameStarted prev" and "0 \<le> i" and "i \<le> 3" by simp_all
      moreover from w \<open>isGameStarted prev\<close> have "length (players prev) = 4"
        by (simp add: wellFormed_def)
      ultimately show ?thesis
        using w by (simp add: logInvariant_incrementStat_iff)
    qed
    from buttons keys show ?thesis by blast
  qed
  from outside exactly callers show ?thesis by blast
qed

theorem incrementStat_unchecked_witness:
  "length (players exampleMatch) \<le> 4 \<and> (3::int) < 7
   \<and> statHistory (incrementStat 7 Winners 1700 exampleMatch) =
       [\<lparr>point = 1, playerIndex = 7, stat = Winners, timestamp = 1700\<rparr>]
   \<and> players (incrementStat 7 Winners 1700 exampleMatch) = players exampleMatch
   \<and> wellFormed exampleMatch \<and> logInvariant exampleMatch
   \<and> \<not> logInvariant (incrementStat 7 Winners 1700 exampleMatch)
   \<and> logInvariant (incrementStat 3 Winners 1700 exampleMatch)
   \<and> handleKeyPress [''constructor'', ''toString'', ''valueOf''] ''8'' exampleMatch =
       Some (Some 3, Some Unforced_errors)
   \<and> logInvariant (incrementStat 3 Unforced_errors 1700 exampleMatch)"
proof -
  have h: "length (players exampleMatch) \<le> 4" by (simp add: exampleMatch_eq)
  have w: "wellFormed exampleMatch" "logInvariant exampleMatch" "statHistory exampleMatch = []"
    "isGameStarted exampleMatch"
    by (simp_all add: exampleMatch_eq wellFormed_def logInvariant_def)
  have k: "handleKeyPress [''constructor'', ''toString'', ''valueOf''] ''8'' exampleMatch =
       Some (Some 3, Some Unforced_errors)"
    by (simp add: handleKeyPress_def exampleMatch_eq keyMap_def)
  note t7 = incrementStat_unchecked [where pIndex = 7 and prev = exampleMatch and st = Winners
      and now = 1700 and key = "''8''" and inherited = "[''constructor'', ''toString'', ''valueOf'']"]
  note t3 = incrementStat_unchecked [where pIndex = 3 and prev = exampleMatch and st = Winners
      and now = 1700 and key = "''8''" and inherited = "[''constructor'', ''toString'', ''valueOf'']"]
  from t3 w k have "logInvariant (incrementStat 3 Unforced_errors 1700 exampleMatch)"
    by blast
  with t7 t3 show ?thesis using h w k by simp
qed

subsection \<open>Reachable states\<close>

lemma examplePlay_eq:
  "examplePlay =
     \<lparr>players = [\<lparr>name = ''A'', winners = 1, unforced_errors = 0, score = 2\<rparr>,
                 \<lparr>name = ''B'', winners = 0, unforced_errors = 0, score = 0\<rparr>,
                 \<lparr>name = ''C'', winners = 0, unforced_errors = 1, score = - 1\<rparr>,
                 \<lparr>name = ''D'', winners = 0, unforced_errors = 0, score = 0\<rparr>],
      isGameStarted = True,
      statHistory = [\<lparr>point = 1, playerIndex = 0, stat = Winners, timestamp = 1700\<rparr>,
                     \<lparr>point = 2, playerIndex = 2, stat = Unforced_errors, timestamp = 1800\<rparr>]\<rparr>"
  by (simp add: examplePlay_def exampleMatch_eq incrementStat_def enumerate_eq_zip
      bumped_def statValue_def upt_conv_Cons)

lemma reachable_exampleMatch: "reachable exampleMatch"
  unfolding exampleMatch_def by (rule reachable.started [OF reachable.initial]) simp

lemma reachable_appends: "reachable s \<Longrightarrow> reachable (appends calls s)"
proof (induction calls arbitrary: s)
  case Nil
  then show ?case by simp
next
  case (Cons c calls)
  obtain i st now where c: "c = (i, st, now)" by (cases c)
  from Cons(2) have "reachable (incrementStat i st now s)" by (rule reachable.scored)
  then have "reachable (appends calls (incrementStat i st now s))" by (rule Cons(1))
  then show ?case by (simp add: c)
qed

lemma reachable_examplePlay: "reachable examplePlay"
  unfolding examplePlay_def by (rule reachable_appends [OF reachable_exampleMatch])

lemma wellFormed_startMatch:
  "wellFormed s \<Longrightarrow> length names = 4 \<Longrightarrow> wellFormed (startMatch names s)"
  by (simp add: wellFormed_def startMatch_def)

lemma wellFormed_incrementStat:
  "wellFormed s \<Longrightarrow> wellFormed (incrementStat pIndex st now s)"
proof -
  assume w: "wellFormed s"
  then have "pIndex < 0 \<or> int (length (players s)) \<le> pIndex" if "\<not> isGameStarted s"
    using that by (auto simp add: wellFormed_def)
  then have "players (incrementStat pIndex st now s) = []" if "\<not> isGameStarted s"
    using that w players_incrementStat_outside [of pIndex s st now]
    by (auto simp add: wellFormed_def)
  with w show ?thesis
    by (auto simp add: wellFormed_def isGameStarted_incrementStat length_players_incrementStat)
qed

lemma reachable_wellFormed: "reachable s \<Longrightarrow> wellFormed s"
proof (induction rule: reachable_cases_typed)
  case initial
  show ?case by (simp add: wellFormed_def initialState_def)
next
  case (started s names)
  then show ?case by (simp add: wellFormed_startMatch)
next
  case (scored s pIndex st now)
  then show ?case by (simp add: wellFormed_incrementStat)
qed

lemma score_rule_bumped:
  "score p = 2 * winners p - unforced_errors p \<Longrightarrow>
   score (bumped st p) = 2 * winners (bumped st p) - unforced_errors (bumped st p)"
  by (cases st) (simp_all add: bumped_def statValue_def)

lemma score_rule_incrementStat:
  assumes "\<forall>p\<in>set (players s). score p = 2 * winners p - unforced_errors p"
  shows "\<forall>p\<in>set (players (incrementStat pIndex st now s)).
           score p = 2 * winners p - unforced_errors p"
proof
  fix p assume "p \<in> set (players (incrementStat pIndex st now s))"
  then obtain j where j: "j < length (players s)"
    and p: "p = players (incrementStat pIndex st now s) ! j"
    by (auto simp add: in_set_conv_nth length_players_incrementStat)
  from j assms have "score (players s ! j) =
      2 * winners (players s ! j) - unforced_errors (players s ! j)"
    by simp
  then show "score p = 2 * winners p - unforced_errors p"
    using j by (simp add: p nth_players_incrementStat score_rule_bumped)
qed

text \<open>
  \<^bold>\<open>C1.\<close> In every reachable state, the score of every player is twice the
  player's winners minus the player's unforced errors.
\<close>

theorem reachable_score:
  assumes "reachable s"
  shows "\<forall>p\<in>set (players s). score p = 2 * winners p - unforced_errors p"
  using assms
proof (induction rule: reachable_cases_typed)
  case initial
  show ?case by (simp add: initialState_def)
next
  case (started s names)
  then show ?case by (auto simp add: startMatch_def)
next
  case (scored s pIndex st now)
  then show ?case by (simp add: score_rule_incrementStat)
qed

theorem reachable_score_witness:
  "reachable examplePlay
   \<and> score (players examplePlay ! 2) =
       2 * winners (players examplePlay ! 2) - unforced_errors (players examplePlay ! 2)
   \<and> score (players examplePlay ! 2) = - 1 \<and> unforced_errors (players examplePlay ! 2) = 1"
proof -
  have m: "players examplePlay ! 2 \<in> set (players examplePlay)"
    by (simp add: examplePlay_eq)
  from reachable_score [OF reachable_examplePlay] m
  have "score (players examplePlay ! 2) =
       2 * winners (players examplePlay ! 2) - unforced_errors (players examplePlay ! 2)"
    by blast
  then show ?thesis
    using reachable_examplePlay by (simp add: examplePlay_eq)
qed

subsection \<open>Team totals\<close>

lemma four_players:
  assumes "length (xs :: 'a list) = 4"
  obtains a b c d where "xs = [a, b, c, d]"
proof -
  from assms obtain a xs1 where 1: "xs = a # xs1" "length xs1 = 3"
    by (cases xs) auto
  then obtain b xs2 where 2: "xs1 = b # xs2" "length xs2 = 2"
    by (cases xs1) auto
  then obtain c xs3 where 3: "xs2 = c # xs3" "length xs3 = 1"
    by (cases xs2) auto
  then obtain d where 4: "xs3 = [d]"
    by (cases xs3) auto
  from 1 2 3 4 that show thesis by simp
qed

lemma getTeamStats_wellFormed:
  assumes "wellFormed s"
  shows "\<exists>t0 t1. getTeamStats 0 s = Inr t0 \<and> getTeamStats 1 s = Inr t1
           \<and> team_score t0 + team_score t1 = sum_list (map score (players s))
           \<and> team_winners t0 + team_winners t1 = sum_list (map winners (players s))
           \<and> team_unforced_errors t0 + team_unforced_errors t1 =
               sum_list (map unforced_errors (players s))"
proof (cases "isGameStarted s")
  case False
  with assms show ?thesis by (simp add: wellFormed_def getTeamStats_def)
next
  case True
  with assms have "length (players s) = 4" by (simp add: wellFormed_def)
  then obtain a b c d where "players s = [a, b, c, d]" by (rule four_players)
  with True show ?thesis by (simp add: getTeamStats_def addPlayer_def)
qed

text \<open>
  \<^bold>\<open>C7.\<close> In every reachable state, \<open>getTeamStats\<close> returns a total for team 0
  and one for team 1, and the two team scores add up to the sum of the scores of all
  players (and so do the winners and the unforced errors). Before the match has started
  both totals are zero and there is no player.
\<close>

theorem getTeamStats_sum:
  assumes "reachable s"
  shows "\<exists>t0 t1. getTeamStats 0 s = Inr t0 \<and> getTeamStats 1 s = Inr t1
           \<and> team_score t0 + team_score t1 = sum_list (map score (players s))
           \<and> team_winners t0 + team_winners t1 = sum_list (map winners (players s))
           \<and> team_unforced_errors t0 + team_unforced_errors t1 =
               sum_list (map unforced_errors (players s))"
  using assms by (intro getTeamStats_wellFormed reachable_wellFormed)

theorem getTeamStats_sum_witness:
  "reachable examplePlay
   \<and> (\<exists>t0 t1. getTeamStats 0 examplePlay = Inr t0 \<and> getTeamStats 1 examplePlay = Inr t1
         \<and> team_score t0 = 2 \<and> team_score t1 = - 1
         \<and> team_score t0 + team_score t1 = sum_list (map score (players examplePlay))
         \<and> sum_list (map score (players examplePlay)) = 1)"
proof -
  from getTeamStats_sum [OF reachable_examplePlay] obtain t0 t1 where
    t: "getTeamStats 0 examplePlay = Inr t0" "getTeamStats 1 examplePlay = Inr t1"
       "team_score t0 + team_score t1 = sum_list (map score (players examplePlay))"
    by blast
  have v: "getTeamStats 0 examplePlay =
             Inr \<lparr>team_winners = 1, team_unforced_errors = 0, team_score = 2\<rparr>"
          "getTeamStats 1 examplePlay =
             Inr \<lparr>team_winners = 0, team_unforced_errors = 1, team_score = - 1\<rparr>"
    by (simp_all add: examplePlay_eq getTeamStats_def addPlayer_def)
  from t v have "team_score t0 = 2" "team_score t1 = - 1" by auto
  moreover have "sum_list (map score (players examplePlay)) = 1"
    by (simp add: examplePlay_eq)
  ultimately show ?thesis using t reachable_examplePlay by blast
qed

section \<open>Export, import and the stored item\<close>

text \<open>
  \<^bold>\<open>C3.\<close> Importing the file exported from a page whose state is \<open>s\<close> shows no
  alert and leaves \<open>s\<close> in the state cell of the importing page, whatever that page
  held before and whatever the user answers: the cell holds the object of \<open>s\<close>, and
  no other state has that object, so the players (names, winners, unforced errors,
  scores), the log and the flag are those of \<open>s\<close>. This holds for every state,
  reachable or not.
\<close>

theorem import_export_roundtrip:
  "fst (importMatchData confirm
          (exportMatchData isoDate (a\<lparr>matchState := json_of_MatchState s\<rparr>)) b) = None
   \<and> matchState (snd (importMatchData confirm
          (exportMatchData isoDate (a\<lparr>matchState := json_of_MatchState s\<rparr>)) b)) =
       json_of_MatchState s
   \<and> (\<forall>t. matchState (snd (importMatchData confirm
          (exportMatchData isoDate (a\<lparr>matchState := json_of_MatchState s\<rparr>)) b)) =
            json_of_MatchState t \<longrightarrow>
          players t = players s \<and> isGameStarted t = isGameStarted s
          \<and> statHistory t = statHistory s)"
proof -
  have c: "matchState (a\<lparr>matchState := json_of_MatchState s\<rparr>) = json_of_MatchState s"
    by simp
  have m: "matchState (snd (importMatchData confirm
          (exportMatchData isoDate (a\<lparr>matchState := json_of_MatchState s\<rparr>)) b)) =
       json_of_MatchState s"
    by (simp add: import_export [OF c] setMatchState_def)
  have "t = s" if "json_of_MatchState s = json_of_MatchState t" for t
    using that by (rule inj_json_of_MatchState [symmetric])
  with m show ?thesis by (auto simp add: import_export [OF c])
qed

theorem import_export_roundtrip_witness:
  "matchState (snd (importMatchData False
      (exportMatchData ''2024-05-01T10:00:00.000Z''
         \<lparr>matchState = json_of_MatchState examplePlay, stateObject = 3,
           playerNames = [''A'', ''B'', ''C'', ''D''], localStorage = None\<rparr>)
      \<lparr>matchState = json_of_MatchState initialState, stateObject = 0,
        playerNames = [[], [], [], []], localStorage = None\<rparr>)) = json_of_MatchState examplePlay
   \<and> json_of_MatchState examplePlay =
       JObj [(''players'',
              JArr [JObj [(''name'', JStr ''A''), (''winners'', JNum 1),
                          (''unforced_errors'', JNum 0), (''score'', JNum 2)],
                    JObj [(''name'', JStr ''B''), (''winners'', JNum 0),
                          (''unforced_errors'', JNum 0), (''score'', JNum 0)],
                    JObj [(''name'', JStr ''C''), (''winners'', JNum 0),
                          (''unforced_errors'', JNum 1), (''score'', JNum (- 1))],
                    JObj [(''name'', JStr ''D''), (''winners'', JNum 0),
                          (''unforced_errors'', JNum 0), (''score'', JNum 0)]]),
             (''isGameStarted'', JBool True),
             (''statHistory'',
              JArr [JObj [(''point'', JNum 1), (''playerIndex'', JNum 0),
                          (''stat'', JStr ''winners''), (''timestamp'', JNum 1700)],
                    JObj [(''point'', JNum 2), (''playerIndex'', JNum 2),
                          (''stat'', JStr ''unforced_errors''), (''timestamp'', JNum 1800)]])]"
proof -
  let ?a = "\<lparr>matchState = json_of_MatchState examplePlay, stateObject = 3,
           playerNames = [''A'', ''B'', ''C'', ''D''], localStorage = None\<rparr>"
  let ?b = "\<lparr>matchState = json_of_MatchState initialState, stateObject = 0,
        playerNames = [[], [], [], []], localStorage = None\<rparr>"
  have a: "?a\<lparr>matchState := json_of_MatchState examplePlay\<rparr> = ?a" by simp
  from import_export_roundtrip [where confirm = False and isoDate = "''2024-05-01T10:00:00.000Z''"
      and a = ?a and s = examplePlay and b = ?b]
  have "matchState (snd (importMatchData False
      (exportMatchData ''2024-05-01T10:00:00.000Z'' ?a) ?b)) = json_of_MatchState examplePlay"
    unfolding a by blast
  moreover have "json_of_MatchState examplePlay =
       JObj [(''players'',
              JArr [JObj [(''name'', JStr ''A''), (''winners'', JNum 1),
                          (''unforced_errors'', JNum 0), (''score'', JNum 2)],
                    JObj [(''name'', JStr ''B''), (''winners'', JNum 0),
                          (''unforced_errors'', JNum 0), (''score'', JNum 0)],
                    JObj [(''name'', JStr ''C''), (''winners'', JNum 0),
                          (''unforced_errors'', JNum 1), (''score'', JNum (- 1))],
                    JObj [(''name'', JStr ''D''), (''winners'', JNum 0),
                          (''unforced_errors'', JNum 0), (''score'', JNum 0)]]),
             (''isGameStarted'', JBool True),
             (''statHistory'',
              JArr [JObj [(''point'', JNum 1), (''playerIndex'', JNum 0),
                          (''stat'', JStr ''winners''), (''timestamp'', JNum 1700)],
                    JObj [(''point'', JNum 2), (''playerIndex'', JNum 2),
                          (''stat'', JStr ''unforced_errors''), (''timestamp'', JNum 1800)]])]"
    by (simp add: examplePlay_eq json_of_MatchState_def json_of_PlayerStats_def
        json_of_StatEntry_def json_of_stat_def)
  ultimately show ?thesis by simp
qed

subsection \<open>Files that are refused\<close>

lemma import_NotJSON:
  "importMatchData confirm NotJSON a = (Some ParseFailure, a)
   \<and> importMatchData confirm EmptyText a = (Some ParseFailure, a)"
  by (simp add: importMatchData_def)

lemma import_refused_unchanged:
  assumes "fst (importMatchData confirm result a) \<noteq> None"
  shows "snd (importMatchData confirm result a) = a"
  using assms
  by (auto simp add: importMatchData_def Let_def split: sum.splits option.splits)

lemma truthy_not_null: "truthy (Some v) \<Longrightarrow> v \<noteq> JNull"
  by (cases v) simp_all

lemma getProperty_fieldOf: "v \<noteq> JNull \<Longrightarrow> getProperty v k = Inr (fieldOf v k)"
  by (cases v) (simp_all add: fieldOf_def)

text \<open>A document other than \<open>null\<close> that has no \<open>matchState\<close>, or whose
  \<open>matchState\<close> has no \<open>players\<close> or no array under \<open>statHistory\<close>, gets
  the alert for a wrong format.\<close>

lemma import_invalid:
  assumes "importedData \<noteq> JNull"
    and "fieldOf importedData ''matchState'' = None
         \<or> (\<exists>ms. fieldOf importedData ''matchState'' = Some ms
                \<and> (fieldOf ms ''players'' = None \<or> \<not> isArray (fieldOf ms ''statHistory'')))"
  shows "importMatchData confirm (JSONText importedData) a = (Some InvalidFormat, a)"
proof -
  note top = getProperty_fieldOf [OF assms(1), of "''matchState''"]
  have "checkedMatchState importedData = Inr None"
  proof (cases "fieldOf importedData ''matchState''")
    case None
    with top show ?thesis by (simp add: checkedMatchState_def)
  next
    case (Some ms)
    show ?thesis
    proof (cases "truthy (Some ms)")
      case False
      with top Some show ?thesis by (simp add: checkedMatchState_def)
    next
      case True
      then have "ms \<noteq> JNull" by (rule truthy_not_null)
      then have inner: "getProperty ms ''players'' = Inr (fieldOf ms ''players'')"
        "getProperty ms ''statHistory'' = Inr (fieldOf ms ''statHistory'')"
        by (simp_all add: getProperty_fieldOf)
      from assms(2) Some
      have "fieldOf ms ''players'' = None \<or> \<not> isArray (fieldOf ms ''statHistory'')"
        by simp
      with top Some True inner show ?thesis
        by (auto simp add: checkedMatchState_def)
    qed
  qed
  then show ?thesis by (simp add: importMatchData_def)
qed

text \<open>
  \<^bold>\<open>C4.\<close> The property: a text that is not JSON gets the alert
  \<open>ParseFailure\<close>; a text that is JSON but whose document lacks \<open>matchState\<close>,
  or whose \<open>matchState\<close> lacks \<open>players\<close> or has no array under
  \<open>statHistory\<close>, gets the alert \<open>InvalidFormat\<close>; and in both cases the page
  is left as it was. The handler does so (\<open>import_NotJSON\<close>, \<open>import_invalid\<close>,
  \<open>import_refused_unchanged\<close>) but for one document: the file whose text is
  \<open>null\<close> is JSON, and its document has no field \<open>matchState\<close>; reading
  \<open>importedData.matchState\<close> throws a TypeError inside the \<open>try\<close> block, and
  the handler shows the alert of the \<open>catch\<close>, the one for a text that is not
  JSON, and not the alert for a wrong format. The page is left as it was.
\<close>

theorem import_null:
  "JSON_parse (JSONText JNull) = Inr JNull
   \<and> getProperty JNull ''matchState'' = Inl TypeError
   \<and> importMatchData confirm (JSONText JNull) a = (Some ParseFailure, a)"
  by (simp add: importMatchData_def checkedMatchState_def)

subsection \<open>What the stored item holds after a handler and its render\<close>

lemma import_success_cell:
  assumes "importMatchData confirm result a = (None, a')"
  shows "stateObject a' = Suc (stateObject a)
         \<and> localStorage a' = (if confirm then Some (JSON_stringify (matchState a'))
                               else localStorage a)"
  using assms
  by (auto simp add: importMatchData_def Let_def setMatchState_def
      split: sum.splits option.splits if_splits)

lemma import_success_stored:
  assumes "importMatchData confirm result a = (None, a')"
  shows "localStorage (afterRender a a') = Some (JSON_stringify (matchState a'))"
  using import_success_cell [OF assms] by (simp add: afterRender_def persistEffect_def)

text \<open>
  \<^bold>\<open>C8.\<close> The property: a successful import replaces the state in memory at once,
  and the stored item is written with the imported state only when the user confirms;
  when the user declines, the stored item stays what it was. The handler alone does so.
  The page does not: the user imports the file exported from a state \<open>s\<close> and
  declines the confirmation; the handler puts \<open>s\<close> into the state cell and leaves
  the stored item as it was; the render that follows runs the persisting effect, since
  the cell holds a new object, and the stored item is then the text of \<open>s\<close>.
\<close>

theorem import_declined_stored:
  "matchState (snd (importMatchData False
      (exportMatchData isoDate (a\<lparr>matchState := json_of_MatchState s\<rparr>)) b)) =
     json_of_MatchState s
   \<and> localStorage (snd (importMatchData False
      (exportMatchData isoDate (a\<lparr>matchState := json_of_MatchState s\<rparr>)) b)) = localStorage b
   \<and> localStorage (snd (importAndRender False
      (exportMatchData isoDate (a\<lparr>matchState := json_of_MatchState s\<rparr>)) b)) =
     Some (JSON_stringify (json_of_MatchState s))"
proof -
  have c: "matchState (a\<lparr>matchState := json_of_MatchState s\<rparr>) = json_of_MatchState s"
    by simp
  show ?thesis
    by (simp add: importAndRender_def import_export [OF c] setMatchState_def afterRender_def
        persistEffect_def)
qed

text \<open>
  \<^bold>\<open>C9.\<close> After a confirmed reset, whatever the page held before, the state is the
  initial one, with no player, not started and an empty log, and the key of the stored
  item is deleted in the sense of the specification, for which writing the empty state
  that has not started is the same as deleting the key. In detail: the handler removes
  the key; the render that follows runs the persisting effect, since the cell holds a
  new object, and the stored item is then the text of the initial state, no more and no
  less. A page that is mounted with that item loads the initial state, which is also the
  state of a page that is mounted with no item.
\<close>

theorem reset_stored:
  "matchState (resetAndRender True a) = json_of_MatchState initialState
   \<and> json_of_MatchState initialState =
       JObj [(''players'', JArr []), (''isGameStarted'', JBool False), (''statHistory'', JArr [])]
   \<and> localStorage (resetMatch True a) = None
   \<and> localStorage (resetAndRender True a) =
       Some (JSON_stringify (json_of_MatchState initialState))
   \<and> keyDeleted (localStorage (resetAndRender True a))
   \<and> (\<exists>p. loadSavedState (b\<lparr>matchState := json_of_MatchState initialState,
                                 localStorage := localStorage (resetAndRender True a)\<rparr>) = Inr p
          \<and> matchState p = json_of_MatchState initialState)
   \<and> (\<exists>p. loadSavedState (b\<lparr>matchState := json_of_MatchState initialState,
                                 localStorage := None\<rparr>) = Inr p
          \<and> matchState p = json_of_MatchState initialState)"
proof -
  have item: "localStorage (resetAndRender True a) =
       Some (JSON_stringify (json_of_MatchState initialState))"
    by (simp add: resetAndRender_def resetMatch_def setMatchState_def afterRender_def
        persistEffect_def)
  have cell: "matchState (resetAndRender True a) = json_of_MatchState initialState"
    by (simp add: resetAndRender_def resetMatch_def setMatchState_def afterRender_def
        persistEffect_def)
  have doc: "json_of_MatchState initialState =
       JObj [(''players'', JArr []), (''isGameStarted'', JBool False), (''statHistory'', JArr [])]"
    by (simp add: json_of_MatchState_def initialState_def)
  have removed: "localStorage (resetMatch True a) = None"
    by (simp add: resetMatch_def)
  have deleted: "keyDeleted (localStorage (resetAndRender True a))"
    by (simp add: item keyDeleted_def)
  have loaded: "\<exists>p. loadSavedState (b\<lparr>matchState := json_of_MatchState initialState,
                                 localStorage := localStorage (resetAndRender True a)\<rparr>) = Inr p
          \<and> matchState p = json_of_MatchState initialState"
    by (simp add: item loadSavedState_def JSON_stringify_def setMatchState_def)
  have absent: "\<exists>p. loadSavedState (b\<lparr>matchState := json_of_MatchState initialState,
                                 localStorage := None\<rparr>) = Inr p
          \<and> matchState p = json_of_MatchState initialState"
    by (simp add: loadSavedState_def)
  from cell doc removed item deleted loaded absent show ?thesis by blast
qed

section \<open>The chart\<close>

subsection \<open>The rows that getChartData pushes\<close>

lemma length_addScore: "length (addScore ps i v) = length ps"
  by (simp add: addScore_def)

lemma length_scoresAfter: "length (scoresAfter ps entries) = length ps"
  unfolding scoresAfter_def
  by (induction entries arbitrary: ps) (simp_all add: length_addScore)

lemma scoresAfter_Cons:
  "scoresAfter ps (entry # entries) =
     scoresAfter (addScore ps (playerIndex entry) (statValue (stat entry))) entries"
  by (simp add: scoresAfter_def)

lemma length_chartRows: "length (chartRows s ps entries) = length entries"
  by (induction entries arbitrary: ps) (simp_all add: Let_def)

lemma nth_chartRows:
  assumes "i < length entries"
  shows "chartRows s ps entries ! i =
           chartRow s (point (entries ! i))
             (scoresAfter ps (take (Suc i) entries) ! 0)
             (scoresAfter ps (take (Suc i) entries) ! 1)
             (scoresAfter ps (take (Suc i) entries) ! 2)
             (scoresAfter ps (take (Suc i) entries) ! 3)"
  using assms
proof (induction entries arbitrary: ps i)
  case Nil
  then show ?case by simp
next
  case (Cons entry entries)
  show ?case
  proof (cases i)
    case 0
    then show ?thesis by (simp add: Let_def scoresAfter_def)
  next
    case (Suc k)
    with Cons.prems have "k < length entries" by simp
    from Cons.IH [OF this] show ?thesis
      by (simp add: Suc Let_def scoresAfter_Cons)
  qed
qed

lemma getChartData_rows:
  "getChartData s = chartRow s 0 0 0 0 0 # chartRows s [0, 0, 0, 0] (statHistory s)"
  by (simp add: getChartData_def)

lemma length_getChartData: "length (getChartData s) = length (statHistory s) + 1"
  by (simp add: getChartData_rows length_chartRows)

subsection \<open>Reading a row\<close>

lemma chartRow_lookup:
  assumes four: "players s = [a, b, c, d]"
    and nonempty: "\<forall>p\<in>set (players s). name p \<noteq> []"
    and dist: "distinct (map name (players s))"
    and fixed: "''point'' \<notin> set (map name (players s))" "''zero'' \<notin> set (map name (players s))"
  shows "map_of (chartRow s pt v0 v1 v2 v3) ''point'' = Some pt"
    and "map_of (chartRow s pt v0 v1 v2 v3) ''zero'' = Some 0"
    and "map_of (chartRow s pt v0 v1 v2 v3) (name a) = Some v0"
    and "map_of (chartRow s pt v0 v1 v2 v3) (name b) = Some v1"
    and "map_of (chartRow s pt v0 v1 v2 v3) (name c) = Some v2"
    and "map_of (chartRow s pt v0 v1 v2 v3) (name d) = Some v3"
proof -
  from four nonempty have keys:
    "playerKey s 0 ''Player 1'' = name a" "playerKey s 1 ''Player 2'' = name b"
    "playerKey s 2 ''Player 3'' = name c" "playerKey s 3 ''Player 4'' = name d"
    by (simp_all add: playerKey_def)
  from four dist fixed have ne:
    "name a \<noteq> name b" "name a \<noteq> name c" "name a \<noteq> name d"
    "name b \<noteq> name c" "name b \<noteq> name d" "name c \<noteq> name d"
    "name a \<noteq> ''point''" "name b \<noteq> ''point''" "name c \<noteq> ''point''" "name d \<noteq> ''point''"
    "name a \<noteq> ''zero''" "name b \<noteq> ''zero''" "name c \<noteq> ''zero''" "name d \<noteq> ''zero''"
    by auto
  have row: "map_of (chartRow s pt v0 v1 v2 v3) =
               [''point'' \<mapsto> pt, ''zero'' \<mapsto> 0, name a \<mapsto> v0, name b \<mapsto> v1,
                name c \<mapsto> v2, name d \<mapsto> v3]"
    unfolding chartRow_def objectLiteral_def keys
    by (simp only: foldl_Cons foldl_Nil prod.case AList.update_conv' map_of.simps)
  show "map_of (chartRow s pt v0 v1 v2 v3) ''point'' = Some pt"
    unfolding row using ne by simp
  show "map_of (chartRow s pt v0 v1 v2 v3) ''zero'' = Some 0"
    unfolding row using ne by simp
  show "map_of (chartRow s pt v0 v1 v2 v3) (name a) = Some v0"
    unfolding row using ne by simp
  show "map_of (chartRow s pt v0 v1 v2 v3) (name b) = Some v1"
    unfolding row using ne by simp
  show "map_of (chartRow s pt v0 v1 v2 v3) (name c) = Some v2"
    unfolding row using ne by simp
  show "map_of (chartRow s pt v0 v1 v2 v3) (name d) = Some v3"
    unfolding row using ne by simp
qed

lemma less_four: "(j::nat) < 4 \<Longrightarrow> j = 0 \<or> j = 1 \<or> j = 2 \<or> j = 3"
  by arith

lemma chartRow_players:
  assumes four: "length (players s) = 4"
    and nonempty: "\<forall>p\<in>set (players s). name p \<noteq> []"
    and dist: "distinct (map name (players s))"
    and fixed: "''point'' \<notin> set (map name (players s))" "''zero'' \<notin> set (map name (players s))"
    and j: "j < 4"
  shows "map_of (chartRow s pt (vs ! 0) (vs ! 1) (vs ! 2) (vs ! 3)) (name (players s ! j)) =
           Some (vs ! j)"
proof -
  from four obtain a b c d where p: "players s = [a, b, c, d]" by (rule four_players)
  note r = chartRow_lookup [OF p nonempty dist fixed]
  from less_four [OF j] show ?thesis
    by (auto simp add: p r)
qed

subsection \<open>Replaying the log\<close>

lemma length_applyEvent: "length (applyEvent roster e) = length roster"
  by (simp add: applyEvent_def)

lemma length_zeroRoster: "length (zeroRoster roster) = length roster"
  by (simp add: zeroRoster_def)

lemma length_foldl_applyEvent: "length (foldl applyEvent roster entries) = length roster"
  by (induction entries arbitrary: roster) (simp_all add: length_applyEvent)

lemma length_projectAll: "length (projectAll roster entries) = length roster"
  by (simp add: projectAll_def length_foldl_applyEvent length_zeroRoster)

lemma score_counted: "score (counted st p) = score p"
  by (cases st) simp_all

lemma name_counted: "name (counted st p) = name p"
  by (cases st) simp_all

lemma scores_applyEvent:
  "map score (applyEvent roster e) =
     addScore (map score roster) (playerIndex e) (statValue (stat e))"
proof (cases "0 \<le> playerIndex e \<and> playerIndex e < int (length roster)")
  case True
  then have "nat (playerIndex e) < length roster" by arith
  with True show ?thesis
    by (simp add: applyEvent_def addScore_def map_update statValue_valueOf)
next
  case False
  then show ?thesis by (auto simp add: applyEvent_def addScore_def)
qed

lemma scores_foldl_applyEvent:
  "map score (foldl applyEvent roster entries) = scoresAfter (map score roster) entries"
proof (induction entries arbitrary: roster)
  case Nil
  show ?case by (simp add: scoresAfter_def)
next
  case (Cons e entries)
  show ?case by (simp add: Cons scores_applyEvent scoresAfter_Cons)
qed

lemma scores_projectAll:
  assumes "length roster = 4"
  shows "map score (projectAll roster entries) = scoresAfter [0, 0, 0, 0] entries"
proof -
  from assms obtain a b c d where "roster = [a, b, c, d]" by (rule four_players)
  then have "map score (zeroRoster roster) = [0, 0, 0, 0]" by (simp add: zeroRoster_def)
  then show ?thesis by (simp add: projectAll_def scores_foldl_applyEvent)
qed

lemma zeroRoster_applyEvent: "zeroRoster (applyEvent roster e) = zeroRoster roster"
proof (cases "0 \<le> playerIndex e \<and> playerIndex e < int (length roster)")
  case False
  then show ?thesis by (auto simp add: applyEvent_def)
next
  case True
  let ?z = "\<lambda>p. \<lparr>name = name p, winners = 0, unforced_errors = 0, score = 0\<rparr>"
  let ?k = "nat (playerIndex e)"
  from True have k: "?k < length roster" by arith
  have "map ?z (applyEvent roster e) = (map ?z roster)[?k := ?z (roster ! ?k)]"
    using True by (simp add: applyEvent_def map_update name_counted)
  also have "\<dots> = (map ?z roster)[?k := map ?z roster ! ?k]" using k by simp
  also have "\<dots> = map ?z roster" by (rule list_update_id)
  finally show ?thesis by (simp add: zeroRoster_def)
qed

lemma projectAll_snoc:
  "projectAll (applyEvent roster e) (entries @ [e]) =
     applyEvent (projectAll roster entries) e"
  by (simp add: projectAll_def zeroRoster_applyEvent)

lemma reachable_projectAll:
  assumes "reachable s"
  shows "projectAll (players s) (statHistory s) = players s"
  using assms
proof (induction rule: reachable_cases_typed)
  case initial
  show ?case by (simp add: initialState_def projectAll_def zeroRoster_def)
next
  case (started s names)
  then show ?case
    by (simp add: startMatch_def projectAll_def zeroRoster_def comp_def)
next
  case (scored s pIndex st now)
  let ?e = "\<lparr>point = int (length (statHistory s)) + 1, playerIndex = pIndex, stat = st,
             timestamp = now\<rparr>"
  have p: "players (incrementStat pIndex st now s) = applyEvent (players s) ?e"
    by (rule players_incrementStat_applyEvent)
  have h: "statHistory (incrementStat pIndex st now s) = statHistory s @ [?e]"
    by (rule statHistory_incrementStat)
  show ?case unfolding p h by (simp add: projectAll_snoc scored)
qed

lemma reachable_names:
  assumes "reachable s"
  shows "\<forall>p\<in>set (players s). name p \<noteq> []"
  using assms
proof (induction rule: reachable_cases_typed)
  case initial
  show ?case by (simp add: initialState_def)
next
  case (started s names)
  then show ?case by (auto simp add: startMatch_def list_all_iff)
next
  case (scored s pIndex st now)
  show ?case
  proof
    fix p assume "p \<in> set (players (incrementStat pIndex st now s))"
    then obtain j where j: "j < length (players s)"
      and p: "p = players (incrementStat pIndex st now s) ! j"
      by (auto simp add: in_set_conv_nth length_players_incrementStat)
    from j scored have "name (players s ! j) \<noteq> []" by simp
    then show "name p \<noteq> []"
      using j by (simp add: p nth_players_incrementStat name_bumped)
  qed
qed

text \<open>A started state that is reachable is a run of calls of \<open>incrementStat\<close> on a
  match just started.\<close>

lemma reachable_started_run:
  assumes "reachable s" and "isGameStarted s"
  shows "\<exists>names prev calls. list_all (\<lambda>n. trim n \<noteq> []) names \<and> length names = 4
           \<and> reachable prev \<and> s = appends calls (startMatch names prev)"
  using assms
proof (induction rule: reachable_cases_typed)
  case initial
  then show ?case by (simp add: initialState_def)
next
  case (started s names)
  show ?case
  proof (cases "list_all (\<lambda>n. trim n \<noteq> []) names")
    case True
    have "startMatch names s = appends [] (startMatch names s)" by simp
    with True started show ?thesis by blast
  next
    case False
    with started show ?thesis by (simp add: startMatch_def)
  qed
next
  case (scored s pIndex st now)
  then have "isGameStarted s" by (simp add: isGameStarted_incrementStat)
  with scored obtain names prev calls where
    n: "list_all (\<lambda>n. trim n \<noteq> []) names" "length names = 4" "reachable prev"
    and s: "s = appends calls (startMatch names prev)"
    by blast
  have "incrementStat pIndex st now s =
          appends (calls @ [(pIndex, st, now)]) (startMatch names prev)"
    by (simp add: appends_append s)
  with n show ?case by blast
qed

subsection \<open>The series of a reachable match\<close>

lemma reachable_points:
  assumes "reachable s"
  shows "\<forall>k<length (statHistory s). point (statHistory s ! k) = int k + 1"
  using assms
proof (induction rule: reachable_cases_typed)
  case initial
  show ?case by (simp add: initialState_def)
next
  case (started s names)
  then show ?case by (simp add: startMatch_def)
next
  case (scored s pIndex st now)
  then show ?case
    by (auto simp add: statHistory_incrementStat nth_append less_Suc_eq)
qed

lemma zeroRoster_appends: "zeroRoster (players (appends calls s)) = zeroRoster (players s)"
proof (induction calls arbitrary: s)
  case Nil
  show ?case by simp
next
  case (Cons c calls)
  obtain i st now where c: "c = (i, st, now)" by (cases c)
  have "zeroRoster (players (incrementStat i st now s)) = zeroRoster (players s)"
    by (simp add: players_incrementStat_applyEvent [where pt = 0] zeroRoster_applyEvent)
  then show ?case by (simp add: c Cons)
qed

lemma projectAll_roster:
  "zeroRoster roster = zeroRoster roster' \<Longrightarrow> projectAll roster entries = projectAll roster' entries"
  by (simp add: projectAll_def)

lemma reachable_prefix_state:
  assumes "reachable s" and "isGameStarted s" and "i \<le> length (statHistory s)"
  shows "\<exists>s'. reachable s' \<and> statHistory s' = take i (statHistory s)
           \<and> players s' = projectAll (players s) (take i (statHistory s))"
proof -
  from reachable_started_run [OF assms(1,2)] obtain names prev calls where
    n: "list_all (\<lambda>n. trim n \<noteq> []) names" "reachable prev" "length names = 4"
    and s: "s = appends calls (startMatch names prev)"
    by blast
  let ?s0 = "startMatch names prev"
  let ?s' = "appends (take i calls) ?s0"
  have e: "statHistory ?s0 = []" using n(1) by (rule statHistory_startMatch)
  have len: "length (statHistory s) = length calls"
    by (simp add: s length_statHistory_appends e)
  have "reachable ?s0" using n(2,3) by (rule reachable.started)
  then have r: "reachable ?s'" by (rule reachable_appends)
  from assms(3) len have "i \<le> length calls" by simp
  from statHistory_appends_take [OF this, of ?s0]
  have h: "statHistory ?s' = take i (statHistory s)"
    by (simp add: e s)
  have "zeroRoster (players ?s') = zeroRoster (players s)"
    by (simp add: s zeroRoster_appends)
  then have "projectAll (players ?s') (statHistory ?s') = projectAll (players s) (statHistory ?s')"
    by (rule projectAll_roster)
  with reachable_projectAll [OF r] h
  have "players ?s' = projectAll (players s) (take i (statHistory s))" by simp
  with r h show ?thesis by blast
qed

lemma chart_baseline:
  assumes four: "length (players s) = 4"
    and nonempty: "\<forall>p\<in>set (players s). name p \<noteq> []"
    and dist: "distinct (map name (players s))"
    and fixed: "''point'' \<notin> set (map name (players s))" "''zero'' \<notin> set (map name (players s))"
  shows "map_of (getChartData s ! 0) ''point'' = Some 0"
    and "map_of (getChartData s ! 0) ''zero'' = Some 0"
    and "\<forall>j<4. map_of (getChartData s ! 0) (name (players s ! j)) = Some 0"
proof -
  from four obtain a b c d where p: "players s = [a, b, c, d]" by (rule four_players)
  note r = chartRow_lookup [OF p nonempty dist fixed]
  show "map_of (getChartData s ! 0) ''point'' = Some 0"
    by (simp add: getChartData_rows r)
  show "map_of (getChartData s ! 0) ''zero'' = Some 0"
    by (simp add: getChartData_rows r)
  show "\<forall>j<4. map_of (getChartData s ! 0) (name (players s ! j)) = Some 0"
  proof (intro allI impI)
    fix j :: nat assume "j < 4"
    from less_four [OF this] show "map_of (getChartData s ! 0) (name (players s ! j)) = Some 0"
      by (auto simp add: getChartData_rows p r)
  qed
qed

lemma chart_row:
  assumes four: "length (players s) = 4"
    and nonempty: "\<forall>p\<in>set (players s). name p \<noteq> []"
    and dist: "distinct (map name (players s))"
    and fixed: "''point'' \<notin> set (map name (players s))" "''zero'' \<notin> set (map name (players s))"
    and i: "1 \<le> i" "i \<le> length (statHistory s)"
  shows "map_of (getChartData s ! i) ''point'' = Some (point (statHistory s ! (i - 1)))"
    and "map_of (getChartData s ! i) ''zero'' = Some 0"
    and "\<forall>j<4. map_of (getChartData s ! i) (name (players s ! j)) =
           Some (score (projectAll (players s) (take i (statHistory s)) ! j))"
proof -
  from four obtain a b c d where p: "players s = [a, b, c, d]" by (rule four_players)
  note r = chartRow_lookup [OF p nonempty dist fixed]
  let ?ps = "scoresAfter [0, 0, 0, 0] (take i (statHistory s))"
  from i obtain k where ik: "i = Suc k" and k: "k < length (statHistory s)"
    by (cases i) simp_all
  have "getChartData s ! i = chartRows s [0, 0, 0, 0] (statHistory s) ! k"
    by (simp add: getChartData_rows ik)
  also have "\<dots> = chartRow s (point (statHistory s ! k))
      (scoresAfter [0, 0, 0, 0] (take (Suc k) (statHistory s)) ! 0)
      (scoresAfter [0, 0, 0, 0] (take (Suc k) (statHistory s)) ! 1)
      (scoresAfter [0, 0, 0, 0] (take (Suc k) (statHistory s)) ! 2)
      (scoresAfter [0, 0, 0, 0] (take (Suc k) (statHistory s)) ! 3)"
    using k by (rule nth_chartRows)
  finally have row: "getChartData s ! i =
      chartRow s (point (statHistory s ! (i - 1))) (?ps ! 0) (?ps ! 1) (?ps ! 2) (?ps ! 3)"
    by (simp add: ik)
  show "map_of (getChartData s ! i) ''point'' = Some (point (statHistory s ! (i - 1)))"
    by (simp add: row r)
  show "map_of (getChartData s ! i) ''zero'' = Some 0"
    by (simp add: row r)
  show "\<forall>j<4. map_of (getChartData s ! i) (name (players s ! j)) =
           Some (score (projectAll (players s) (take i (statHistory s)) ! j))"
  proof (intro allI impI)
    fix j :: nat assume j: "j < 4"
    have "map score (projectAll (players s) (take i (statHistory s))) = ?ps"
      using four by (rule scores_projectAll)
    moreover have "j < length (projectAll (players s) (take i (statHistory s)))"
      using j four by (simp add: length_projectAll)
    ultimately have "?ps ! j = score (projectAll (players s) (take i (statHistory s)) ! j)"
      by (metis nth_map)
    moreover have "map_of (getChartData s ! i) (name (players s ! j)) = Some (?ps ! j)"
      unfolding row using four nonempty dist fixed j by (rule chartRow_players)
    ultimately show "map_of (getChartData s ! i) (name (players s ! j)) =
           Some (score (projectAll (players s) (take i (statHistory s)) ! j))"
      by simp
  qed
qed

lemma pointMatch_eq:
  "pointMatch =
     \<lparr>players = [\<lparr>name = ''point'', winners = 1, unforced_errors = 0, score = 2\<rparr>,
                 \<lparr>name = ''B'', winners = 0, unforced_errors = 0, score = 0\<rparr>,
                 \<lparr>name = ''C'', winners = 0, unforced_errors = 0, score = 0\<rparr>,
                 \<lparr>name = ''D'', winners = 0, unforced_errors = 0, score = 0\<rparr>],
      isGameStarted = True,
      statHistory = [\<lparr>point = 1, playerIndex = 0, stat = Winners, timestamp = 1700\<rparr>]\<rparr>"
  by (simp add: pointMatch_def startMatch_def trim_def whitespace_def initialState_def
      incrementStat_def enumerate_eq_zip bumped_def statValue_def upt_conv_Cons)

lemma reachable_pointMatch: "reachable pointMatch"
  unfolding pointMatch_def
  by (rule reachable.scored, rule reachable.started [OF reachable.initial]) simp

text \<open>
  \<^bold>\<open>C2, as the claim states it, fails.\<close> The four names ``point'', B, C and D are
  pairwise distinct. After a winner of the player called ``point'', the computed key of
  that player overwrites the field \<open>point\<close> of the row: row 1 has \<open>point = 2\<close>,
  the score of the player, where the entry has \<open>point = 1\<close>.
\<close>

theorem getChartData_point_counterexample:
  "reachable pointMatch \<and> isGameStarted pointMatch \<and> length (players pointMatch) = 4
   \<and> distinct (map name (players pointMatch))
   \<and> length (statHistory pointMatch) = 1
   \<and> point (statHistory pointMatch ! 0) = 1
   \<and> map_of (getChartData pointMatch ! 1) ''point'' = Some 2
   \<and> map_of (getChartData pointMatch ! 1) ''point'' \<noteq> Some (point (statHistory pointMatch ! 0))"
proof -
  have "map_of (getChartData pointMatch ! 1) ''point'' = Some 2"
    by (simp add: pointMatch_eq getChartData_def chartRow_def objectLiteral_def
        playerKey_def addScore_def statValue_def Let_def)
  then show ?thesis
    using reachable_pointMatch by (simp add: pointMatch_eq)
qed

text \<open>A player called ``zero'' does to the field \<open>zero\<close> what the player
  called ``point'' does to \<open>point\<close>: the row holds the score of the player there.\<close>

lemma getChartData_zero_overwritten:
  "distinct (map name (players zeroMatch))
   \<and> map_of (getChartData zeroMatch ! 1) ''zero'' = Some 2"
  by (simp add: zeroMatch_def startMatch_def trim_def whitespace_def initialState_def
      incrementStat_def enumerate_eq_zip bumped_def upt_conv_Cons
      getChartData_def chartRow_def objectLiteral_def
      playerKey_def addScore_def statValue_def Let_def)

text \<open>
  \<^bold>\<open>C2, amended.\<close> In a reachable started state whose four players have pairwise
  distinct names, none of them ``point'' or ``zero'', the chart has one row more than
  the log has entries. Row 0 has \<open>point = 0\<close>, \<open>zero = 0\<close> and 0 under the name
  of every player. For \<open>i\<close> from 1 to the length of the log, row \<open>i\<close> has the
  \<open>point\<close> of the \<open>i\<close>-th entry, which is \<open>i\<close>, \<open>zero = 0\<close>, and under
  the name of every player the score that player has in the replay of the first \<open>i\<close>
  entries from a roster of zeros; that replay is the roster of the reachable state whose
  log is those \<open>i\<close> entries. The replay of the whole log is the roster of the state,
  so the last row holds the present score of every player.
\<close>

theorem getChartData_series:
  assumes "reachable s" and "isGameStarted s"
    and "distinct (map name (players s))"
    and "''point'' \<notin> set (map name (players s))"
    and "''zero'' \<notin> set (map name (players s))"
  shows "length (getChartData s) = length (statHistory s) + 1
    \<and> map_of (getChartData s ! 0) ''point'' = Some 0
    \<and> map_of (getChartData s ! 0) ''zero'' = Some 0
    \<and> (\<forall>j<4. map_of (getChartData s ! 0) (name (players s ! j)) = Some 0)
    \<and> (\<forall>i. 1 \<le> i \<and> i \<le> length (statHistory s) \<longrightarrow>
          map_of (getChartData s ! i) ''point'' = Some (point (statHistory s ! (i - 1)))
          \<and> point (statHistory s ! (i - 1)) = int i
          \<and> map_of (getChartData s ! i) ''zero'' = Some 0
          \<and> (\<forall>j<4. map_of (getChartData s ! i) (name (players s ! j)) =
                Some (score (projectAll (players s) (take i (statHistory s)) ! j)))
          \<and> (\<exists>s'. reachable s' \<and> statHistory s' = take i (statHistory s)
                \<and> players s' = projectAll (players s) (take i (statHistory s))))
    \<and> projectAll (players s) (statHistory s) = players s
    \<and> (\<forall>j<4. map_of (last (getChartData s)) (name (players s ! j)) =
          Some (score (players s ! j)))"
proof -
  from assms(1,2) have four: "length (players s) = 4"
    using reachable_wellFormed by (auto simp add: wellFormed_def)
  from assms(1) have nonempty: "\<forall>p\<in>set (players s). name p \<noteq> []" by (rule reachable_names)
  note base = chart_baseline [OF four nonempty assms(3,4,5)]
  have replay: "projectAll (players s) (statHistory s) = players s"
    using assms(1) by (rule reachable_projectAll)
  have rows: "map_of (getChartData s ! i) ''point'' = Some (point (statHistory s ! (i - 1)))
          \<and> point (statHistory s ! (i - 1)) = int i
          \<and> map_of (getChartData s ! i) ''zero'' = Some 0
          \<and> (\<forall>j<4. map_of (getChartData s ! i) (name (players s ! j)) =
                Some (score (projectAll (players s) (take i (statHistory s)) ! j)))
          \<and> (\<exists>s'. reachable s' \<and> statHistory s' = take i (statHistory s)
                \<and> players s' = projectAll (players s) (take i (statHistory s)))"
    if i: "1 \<le> i \<and> i \<le> length (statHistory s)" for i
  proof -
    from i have i1: "1 \<le> i" and i2: "i \<le> length (statHistory s)" by simp_all
    note r = chart_row [OF four nonempty assms(3,4,5) i1 i2]
    from i1 i2 have "i - 1 < length (statHistory s)" by arith
    with reachable_points [OF assms(1)] have "point (statHistory s ! (i - 1)) = int (i - 1) + 1"
      by blast
    with i1 have "point (statHistory s ! (i - 1)) = int i" by simp
    with r reachable_prefix_state [OF assms(1,2) i2] show ?thesis by blast
  qed
  have final: "map_of (last (getChartData s)) (name (players s ! j)) =
          Some (score (players s ! j))" if j: "j < 4" for j
  proof (cases "statHistory s = []")
    case True
    with replay have "players s = zeroRoster (players s)" by (simp add: projectAll_def)
    then have "score (players s ! j) = score (zeroRoster (players s) ! j)" by simp
    also have "\<dots> = 0" using j four by (simp add: zeroRoster_def)
    finally have "score (players s ! j) = 0" .
    moreover have "last (getChartData s) = getChartData s ! 0"
      using True by (simp add: getChartData_def)
    ultimately show ?thesis using base(3) j by simp
  next
    case False
    let ?n = "length (statHistory s)"
    from False have n: "1 \<le> ?n" by (cases "statHistory s") simp_all
    have "getChartData s \<noteq> []" by (simp add: getChartData_rows)
    then have "last (getChartData s) = getChartData s ! ?n"
      by (simp add: last_conv_nth length_getChartData)
    moreover from chart_row(3) [OF four nonempty assms(3,4,5) n order_refl] j
    have "map_of (getChartData s ! ?n) (name (players s ! j)) =
            Some (score (projectAll (players s) (take ?n (statHistory s)) ! j))"
      by blast
    ultimately show ?thesis by (simp add: replay)
  qed
  from base rows replay final show ?thesis
    by (simp add: length_getChartData)
qed

theorem getChartData_series_witness:
  "reachable examplePlay \<and> isGameStarted examplePlay
   \<and> distinct (map name (players examplePlay))
   \<and> ''point'' \<notin> set (map name (players examplePlay))
   \<and> ''zero'' \<notin> set (map name (players examplePlay))
   \<and> length (getChartData examplePlay) = 3
   \<and> map_of (getChartData examplePlay ! 0) ''point'' = Some 0
   \<and> map_of (getChartData examplePlay ! 1) ''point'' = Some 1
   \<and> map_of (getChartData examplePlay ! 2) ''point'' = Some 2
   \<and> map_of (getChartData examplePlay ! 1) ''A'' = Some 2
   \<and> map_of (getChartData examplePlay ! 2) ''C'' = Some (- 1)
   \<and> map_of (last (getChartData examplePlay)) ''A'' = Some 2"
proof -
  have h: "isGameStarted examplePlay" "distinct (map name (players examplePlay))"
    "''point'' \<notin> set (map name (players examplePlay))"
    "''zero'' \<notin> set (map name (players examplePlay))"
    by (simp_all add: examplePlay_eq)
  note t = getChartData_series [OF reachable_examplePlay h]
  have len: "length (statHistory examplePlay) = 2" by (simp add: examplePlay_eq)
  have pts: "point (statHistory examplePlay ! 0) = 1" "point (statHistory examplePlay ! 1) = 2"
    by (simp_all add: examplePlay_eq)
  have names: "name (players examplePlay ! 0) = ''A''" "name (players examplePlay ! 2) = ''C''"
    by (simp_all add: examplePlay_eq)
  have sc: "score (players examplePlay ! 0) = 2"
    by (simp add: examplePlay_eq)
  have p1: "score (projectAll (players examplePlay) (take 1 (statHistory examplePlay)) ! 0) = 2"
    by (simp add: examplePlay_eq projectAll_def zeroRoster_def applyEvent_def)
  have p2: "score (projectAll (players examplePlay) (take 2 (statHistory examplePlay)) ! 2) = - 1"
    by (simp add: examplePlay_eq projectAll_def zeroRoster_def applyEvent_def)
  from t have c0: "length (getChartData examplePlay) = 3"
    and c1: "map_of (getChartData examplePlay ! 0) ''point'' = Some 0"
    by (simp_all add: len)
  from t have rows: "\<And>i. 1 \<le> i \<and> i \<le> 2 \<Longrightarrow>
          map_of (getChartData examplePlay ! i) ''point'' =
            Some (point (statHistory examplePlay ! (i - 1)))
          \<and> (\<forall>j<4. map_of (getChartData examplePlay ! i) (name (players examplePlay ! j)) =
                Some (score (projectAll (players examplePlay)
                               (take i (statHistory examplePlay)) ! j)))"
    unfolding len by blast
  from rows [of 1] have r1: "map_of (getChartData examplePlay ! 1) ''point'' = Some 1"
    and a1: "\<forall>j<4. map_of (getChartData examplePlay ! 1) (name (players examplePlay ! j)) =
                Some (score (projectAll (players examplePlay)
                               (take 1 (statHistory examplePlay)) ! j))"
    using pts by simp_all
  from a1 [rule_format, of 0] have r1': "map_of (getChartData examplePlay ! 1) ''A'' = Some 2"
    unfolding names p1 by simp
  from rows [of 2] have r2: "map_of (getChartData examplePlay ! 2) ''point'' = Some 2"
    and a2: "\<forall>j<4. map_of (getChartData examplePlay ! 2) (name (players examplePlay ! j)) =
                Some (score (projectAll (players examplePlay)
                               (take 2 (statHistory examplePlay)) ! j))"
    using pts by simp_all
  from a2 [rule_format, of 2] have r2': "map_of (getChartData examplePlay ! 2) ''C'' = Some (- 1)"
    unfolding names p2 by simp
  from t have "\<forall>j<4. map_of (last (getChartData examplePlay)) (name (players examplePlay ! j)) =
          Some (score (players examplePlay ! j))"
    by blast
  from this [rule_format, of 0] have l: "map_of (last (getChartData examplePlay)) ''A'' = Some 2"
    unfolding names sc by simp
  from reachable_examplePlay h c0 c1 r1 r1' r2 r2' l show ?thesis by simp
qed

end
